theory Spec2Isabelle
  imports Main "HOL-Library.Word"
begin

section \<open>Go library functions used by the subscription service\<close>

text \<open>
  The service in \<^verbatim>\<open>internal/service/subscription.go\<close> calls \<^verbatim>\<open>strings.Split\<close>,
  \<^verbatim>\<open>strconv.Atoi\<close> and the \<^verbatim>\<open>time\<close> package.  They are modelled here by what they
  compute.  Go strings are byte sequences, so a string is a \<^typ>\<open>char list\<close>.  Go's
  \<^verbatim>\<open>int\<close> is taken to be 64 bits wide (as on amd64 and arm64).
\<close>

subsection \<open>strings.Split with a one-byte separator\<close>

text \<open>
  \<^verbatim>\<open>strings.Split(s, "-")\<close> cuts \<open>s\<close> at every separator byte and returns the pieces
  between them: one piece more than there are separators, so the empty string gives one
  empty piece.
\<close>

fun Split :: "string \<Rightarrow> char \<Rightarrow> string list" where
  "Split [] sep = [[]]"
| "Split (c # cs) sep =
     (if c = sep then [] # Split cs sep
      else (case Split cs sep of
              [] \<Rightarrow> [[c]]
            | p # ps \<Rightarrow> (c # p) # ps))"

subsection \<open>strconv.Atoi\<close>

datatype NumError = ErrSyntax | ErrRange

definition isDigit :: "char \<Rightarrow> bool" where
  "isDigit c = (48 \<le> (of_char c :: nat) \<and> (of_char c :: nat) \<le> 57)"

definition maxUint64 :: nat where
  "maxUint64 = 2 ^ 64 - 1"

text \<open>
  The digit loop of \<^verbatim>\<open>strconv.ParseUint(s, 10, 64)\<close>: it stops at the first byte that
  is not a decimal digit (syntax error, value 0) and at the first digit that takes the
  value beyond 64 bits (range error, value \<open>2^64 - 1\<close>).
\<close>

fun ParseUint_loop :: "nat \<Rightarrow> string \<Rightarrow> nat \<times> NumError option" where
  "ParseUint_loop n [] = (n, None)"
| "ParseUint_loop n (c # cs) =
     (if \<not> isDigit c then (0, Some ErrSyntax)
      else if n \<ge> maxUint64 div 10 + 1 then (maxUint64, Some ErrRange)
      else
        (let n1 = n * 10 + (of_char c - 48)
         in if n1 > maxUint64 then (maxUint64, Some ErrRange)
            else ParseUint_loop n1 cs))"

definition ParseUint :: "string \<Rightarrow> nat \<times> NumError option" where
  "ParseUint s = (if s = [] then (0, Some ErrSyntax) else ParseUint_loop 0 s)"

text \<open>
  \<^verbatim>\<open>strconv.ParseInt(s, 10, 0)\<close>: an optional sign, then \<^verbatim>\<open>ParseUint\<close>; a value outside
  the 64-bit signed range is clamped and reported as a range error.
\<close>

definition ParseInt :: "string \<Rightarrow> int \<times> NumError option" where
  "ParseInt s =
     (case s of
        [] \<Rightarrow> (0, Some ErrSyntax)
      | c # cs \<Rightarrow>
          (let neg = (c = CHR ''-'');
               s' = (if c = CHR ''+'' \<or> c = CHR ''-'' then cs else s);
               (un, err) = ParseUint s'
           in if err = Some ErrSyntax then (0, err)
              else if \<not> neg \<and> un \<ge> 2 ^ 63 then (2 ^ 63 - 1, Some ErrRange)
              else if neg \<and> un > 2 ^ 63 then (- (2 ^ 63), Some ErrRange)
              else (if neg then - int un else int un, None)))"

text \<open>
  \<^verbatim>\<open>strconv.Atoi(s)\<close> is \<^verbatim>\<open>ParseInt(s, 10, 0)\<close> converted to \<^verbatim>\<open>int\<close>; its fast path
  for short strings returns the same value and the same kind of error.
\<close>

definition Atoi :: "string \<Rightarrow> int \<times> NumError option" where
  "Atoi s = ParseInt s"

subsection \<open>The time package\<close>

text \<open>
  Every \<^verbatim>\<open>time.Time\<close> of the service comes from
  \<^verbatim>\<open>time.Date(year, month, 1, 0, 0, 0, 0, time.UTC)\<close>: an instant in UTC with no
  monotonic clock reading.  Such a value is the number of seconds since January 1 of
  year 1, 00:00:00 UTC, which is what Go stores.  \<^verbatim>\<open>After\<close> and \<^verbatim>\<open>Before\<close> compare the
  instants; \<^verbatim>\<open>Year\<close> and \<^verbatim>\<open>Month\<close> recompute the civil date from the instant.

  The day count is the one of the proleptic Gregorian calendar, computed over 400-, 100-
  and 4-year cycles as the library does.  The library counts from a year that is congruent
  to 1 modulo 400 and far enough in the past for its unsigned arithmetic never to see a
  negative number; with the flooring \<open>div\<close> of \<^typ>\<open>int\<close> the count from year 1 is the
  same computation.  The model is exact for every year whose second count fits Go's 64
  bits (about 292 billion years either side of year 1).
\<close>

datatype Time = Time (sec: int)

definition isLeap :: "int \<Rightarrow> bool" where
  "isLeap year = (year mod 4 = 0 \<and> (year mod 100 \<noteq> 0 \<or> year mod 400 = 0))"

definition daysBefore :: "int list" where
  "daysBefore = [0, 31, 59, 90, 120, 151, 181, 212, 243, 273, 304, 334, 365]"

definition norm :: "int \<Rightarrow> int \<Rightarrow> int \<Rightarrow> int \<times> int" where
  "norm hi lo base =
     (let (hi, lo) = (if lo < 0
                      then (let n = (- lo - 1) div base + 1 in (hi - n, lo + n * base))
                      else (hi, lo));
          (hi, lo) = (if lo \<ge> base
                      then (let n = lo div base in (hi + n, lo - n * base))
                      else (hi, lo))
      in (hi, lo))"

definition daysSinceEpoch :: "int \<Rightarrow> int" where
  "daysSinceEpoch year =
     (let y = year - 1;
          n = y div 400; y = y - 400 * n; d = 146097 * n;
          n = y div 100; y = y - 100 * n; d = d + 36524 * n;
          n = y div 4; y = y - 4 * n; d = d + 1461 * n;
          n = y; d = d + 365 * n
      in d)"

text \<open>\<^verbatim>\<open>time.Date(year, month, 1, 0, 0, 0, 0, time.UTC)\<close>; a month outside 1..12 carries
  into the year.\<close>

definition time_Date :: "int \<Rightarrow> int \<Rightarrow> Time" where
  "time_Date year month =
     (let m = month - 1;
          (year, m) = norm year m 12;
          month = m + 1;
          d = daysSinceEpoch year;
          d = d + daysBefore ! nat (month - 1);
          d = (if isLeap year \<and> month \<ge> 3 then d + 1 else d)
      in Time (d * 86400))"

text \<open>The year and the day of the year (from 0) of an instant.\<close>

definition absDate :: "int \<Rightarrow> int \<times> int" where
  "absDate s =
     (let d = s div 86400;
          n = d div 146097; y = 400 * n; d = d - 146097 * n;
          n = d div 36524; n = n - n div 4; y = y + 100 * n; d = d - 36524 * n;
          n = d div 1461; y = y + 4 * n; d = d - 1461 * n;
          n = d div 365; n = n - n div 4; y = y + n; d = d - 365 * n
      in (y + 1, d))"

definition monthOfYday :: "int \<Rightarrow> int \<Rightarrow> int" where
  "monthOfYday year yday =
     (if isLeap year \<and> yday = 31 + 29 - 1 then 2
      else
        (let day = (if isLeap year \<and> yday > 31 + 29 - 1 then yday - 1 else yday);
             month = day div 31;
             end = daysBefore ! nat (month + 1);
             month = (if day \<ge> end then month + 1 else month)
         in month + 1))"

definition Year :: "Time \<Rightarrow> int" where
  "Year t = fst (absDate (sec t))"

definition Month :: "Time \<Rightarrow> int" where
  "Month t = (let (year, yday) = absDate (sec t) in monthOfYday year yday)"

definition After :: "Time \<Rightarrow> Time \<Rightarrow> bool" where
  "After t u = (sec t > sec u)"

definition Before :: "Time \<Rightarrow> Time \<Rightarrow> bool" where
  "Before t u = (sec t < sec u)"

section \<open>The data model (models/subscription.go)\<close>

type_synonym UUID = "128 word"
type_synonym go_int = "64 word"

record Subscription =
  ID :: UUID
  ServiceName :: string
  Price :: go_int
  UserID :: UUID
  StartDate :: string
  EndDate :: "string option"
  CreatedAt :: Time
  UpdatedAt :: Time

record SubscriptionUpdate =
  upd_ServiceName :: "string option"
  upd_Price :: "go_int option"
  upd_UserID :: "UUID option"
  upd_StartDate :: "string option"
  upd_EndDate :: "string option"

record TotalCostRequest =
  req_UserID :: "UUID option"
  req_ServiceName :: "string option"
  StartPeriod :: string
  EndPeriod :: string

record TotalCostResponse =
  TotalCost :: go_int

text \<open>
  The errors of the service, one constructor for each \<^verbatim>\<open>fmt.Errorf\<close> message.  An error
  of the repository is passed through unchanged: it is \<open>ErrRepo\<close> of whatever the
  repository reported.  The run-time panic of an index out of range ends the call as
  well.
\<close>

type_synonym repo_error = string

datatype error =
    ErrStartDateFormat
  | ErrEndDateFormat
  | ErrPeriodFormat
  | ErrInvalidStartPeriod
  | ErrInvalidEndPeriod
  | ErrPeriodOrder
  | ErrRepo repo_error
  | PanicIndexOutOfRange

datatype filter_value = FilterUUID UUID | FilterString string

section \<open>The service (internal/service/subscription.go)\<close>

definition isValidDateFormat :: "string \<Rightarrow> bool" where
  "isValidDateFormat date =
     (let parts = Split date CHR ''-''
      in if length parts \<noteq> 2 then False
         else
           (let (month, err1) = Atoi (parts ! 0);
                (year, err2) = Atoi (parts ! 1)
            in if err1 \<noteq> None \<or> err2 \<noteq> None then False
               else month \<ge> 1 \<and> month \<le> 12 \<and> year \<ge> 1900 \<and> year \<le> 9999))"

text \<open>
  \<^verbatim>\<open>parsePeriod\<close> indexes the split result without looking at its length and drops both
  conversion errors; its own error result is always \<^verbatim>\<open>nil\<close>.
\<close>

definition parsePeriod :: "string \<Rightarrow> error + (Time \<times> error option)" where
  "parsePeriod period =
     (let parts = Split period CHR ''-''
      in if length parts \<le> 0 then Inl PanicIndexOutOfRange
         else
           (let (month, _) = Atoi (parts ! 0)
            in if length parts \<le> 1 then Inl PanicIndexOutOfRange
               else
                 (let (year, _) = Atoi (parts ! 1)
                  in Inr (time_Date year month, None))))"

definition maxTime :: "Time \<Rightarrow> Time \<Rightarrow> Time" where
  "maxTime a b = (if After a b then a else b)"

definition minTime :: "Time \<Rightarrow> Time \<Rightarrow> Time" where
  "minTime a b = (if Before a b then a else b)"

text \<open>
  The result is a Go \<^verbatim>\<open>int\<close>.  \<^verbatim>\<open>Year()\<close> is below 3 * 10^11 in absolute value for every
  \<^verbatim>\<open>time.Time\<close>, so the arithmetic cannot wrap and is written on \<^typ>\<open>int\<close>.
\<close>

definition calculateOverlapMonths :: "Time \<Rightarrow> Time \<Rightarrow> Time \<Rightarrow> Time \<Rightarrow> int" where
  "calculateOverlapMonths periodStart periodEnd subStart subEnd =
     (let overlapStart = maxTime periodStart subStart;
          overlapEnd = minTime periodEnd subEnd
      in if After overlapStart overlapEnd then 0
         else
           (let yearDiff = Year overlapEnd - Year overlapStart;
                monthDiff = Month overlapEnd - Month overlapStart
            in yearDiff * 12 + monthDiff + 1))"

text \<open>
  One iteration of the loop of \<^verbatim>\<open>GetTotalCost\<close>: the new value of \<^verbatim>\<open>totalCost\<close>, or the
  panic of \<^verbatim>\<open>parsePeriod\<close>.  \<^verbatim>\<open>totalCost\<close> and \<^verbatim>\<open>sub.Price\<close> are Go \<^verbatim>\<open>int\<close>s: \<open>+\<close> and \<open>*\<close>
  wrap around at 64 bits.
\<close>

definition totalCostStep :: "Time \<Rightarrow> Time \<Rightarrow> go_int \<Rightarrow> Subscription \<Rightarrow> error + go_int" where
  "totalCostStep startPeriod endPeriod totalCost sub =
     (case parsePeriod (StartDate sub) of
        Inl e \<Rightarrow> Inl e
      | Inr (subStart, _) \<Rightarrow>
          (case EndDate sub of
             None \<Rightarrow>
               (if \<not> Before subStart startPeriod \<and> \<not> After subStart endPeriod
                then Inr (totalCost + Price sub)
                else Inr totalCost)
           | Some endDate \<Rightarrow>
               (case parsePeriod endDate of
                  Inl e \<Rightarrow> Inl e
                | Inr (subEnd, _) \<Rightarrow>
                    (let overlapMonths =
                           calculateOverlapMonths startPeriod endPeriod subStart subEnd
                     in Inr (totalCost + Price sub * word_of_int overlapMonths)))))"

fun totalCostLoop :: "Time \<Rightarrow> Time \<Rightarrow> go_int \<Rightarrow> Subscription list \<Rightarrow> error + go_int" where
  "totalCostLoop startPeriod endPeriod totalCost [] = Inr totalCost"
| "totalCostLoop startPeriod endPeriod totalCost (sub # subscriptions) =
     (case totalCostStep startPeriod endPeriod totalCost sub of
        Inl e \<Rightarrow> Inl e
      | Inr totalCost' \<Rightarrow> totalCostLoop startPeriod endPeriod totalCost' subscriptions)"

text \<open>
  \<^verbatim>\<open>GetTotalCost\<close>; the repository's \<^verbatim>\<open>List\<close> is a parameter, and logging is left out.
\<close>

definition GetTotalCost ::
  "((string \<rightharpoonup> filter_value) \<Rightarrow> repo_error + Subscription list) \<Rightarrow> TotalCostRequest
     \<Rightarrow> error + TotalCostResponse" where
  "GetTotalCost repo_List req =
     (if \<not> isValidDateFormat (StartPeriod req) \<or> \<not> isValidDateFormat (EndPeriod req)
      then Inl ErrPeriodFormat
      else
        (case parsePeriod (StartPeriod req) of
           Inl e \<Rightarrow> Inl e
         | Inr (startPeriod, Some err) \<Rightarrow> Inl ErrInvalidStartPeriod
         | Inr (startPeriod, None) \<Rightarrow>
             (case parsePeriod (EndPeriod req) of
                Inl e \<Rightarrow> Inl e
              | Inr (endPeriod, Some err) \<Rightarrow> Inl ErrInvalidEndPeriod
              | Inr (endPeriod, None) \<Rightarrow>
                  (if After startPeriod endPeriod then Inl ErrPeriodOrder
                   else
                     (let filters = Map.empty;
                          filters = (case req_UserID req of
                                       None \<Rightarrow> filters
                                     | Some u \<Rightarrow> filters(''user_id'' \<mapsto> FilterUUID u));
                          filters = (case req_ServiceName req of
                                       None \<Rightarrow> filters
                                     | Some n \<Rightarrow> filters(''service_name'' \<mapsto> FilterString n))
                      in case repo_List filters of
                           Inl err \<Rightarrow> Inl (ErrRepo err)
                         | Inr subscriptions \<Rightarrow>
                             (case totalCostLoop startPeriod endPeriod 0 subscriptions of
                                Inl e \<Rightarrow> Inl e
                              | Inr totalCost \<Rightarrow> Inr \<lparr>TotalCost = totalCost\<rparr>))))))"

text \<open>
  \<^verbatim>\<open>Update\<close>; the repository's \<^verbatim>\<open>GetByID\<close> and \<^verbatim>\<open>Update\<close> and the clock are parameters.
  The result is the record handed to the repository.
\<close>

definition Update ::
  "(UUID \<Rightarrow> repo_error + Subscription) \<Rightarrow> (Subscription \<Rightarrow> repo_error option) \<Rightarrow> Time
     \<Rightarrow> UUID \<Rightarrow> SubscriptionUpdate \<Rightarrow> error + Subscription" where
  "Update repo_GetByID repo_Update now ident req =
     (if upd_StartDate req \<noteq> None \<and> \<not> isValidDateFormat (the (upd_StartDate req))
      then Inl ErrStartDateFormat
      else if upd_EndDate req \<noteq> None \<and> the (upd_EndDate req) \<noteq> []
              \<and> \<not> isValidDateFormat (the (upd_EndDate req))
      then Inl ErrEndDateFormat
      else
        (case repo_GetByID ident of
           Inl err \<Rightarrow> Inl (ErrRepo err)
         | Inr existing \<Rightarrow>
             (let existing = (case upd_ServiceName req of
                                None \<Rightarrow> existing
                              | Some v \<Rightarrow> existing\<lparr>ServiceName := v\<rparr>);
                  existing = (case upd_Price req of
                                None \<Rightarrow> existing
                              | Some v \<Rightarrow> existing\<lparr>Price := v\<rparr>);
                  existing = (case upd_UserID req of
                                None \<Rightarrow> existing
                              | Some v \<Rightarrow> existing\<lparr>UserID := v\<rparr>);
                  existing = (case upd_StartDate req of
                                None \<Rightarrow> existing
                              | Some v \<Rightarrow> existing\<lparr>StartDate := v\<rparr>);
                  existing = (case upd_EndDate req of
                                None \<Rightarrow> existing
                              | Some v \<Rightarrow> existing\<lparr>EndDate := Some v\<rparr>);
                  existing = existing\<lparr>UpdatedAt := now\<rparr>
              in case repo_Update existing of
                   Some err \<Rightarrow> Inl (ErrRepo err)
                 | None \<Rightarrow> Inr existing)))"

text \<open>The filters that \<^const>\<open>GetTotalCost\<close> hands to the repository.\<close>

definition request_filters :: "TotalCostRequest \<Rightarrow> (string \<rightharpoonup> filter_value)" where
  "request_filters req =
     (let filters = Map.empty;
          filters = (case req_UserID req of
                       None \<Rightarrow> filters
                     | Some u \<Rightarrow> filters(''user_id'' \<mapsto> FilterUUID u));
          filters = (case req_ServiceName req of
                       None \<Rightarrow> filters
                     | Some n \<Rightarrow> filters(''service_name'' \<mapsto> FilterString n))
      in filters)"

text \<open>A repository whose \<^verbatim>\<open>List\<close> succeeds with the given records, whatever the filters.\<close>

definition repo_returning ::
  "Subscription list \<Rightarrow> (string \<rightharpoonup> filter_value) \<Rightarrow> repo_error + Subscription list" where
  "repo_returning subscriptions filters = Inr subscriptions"

text \<open>
  A repository whose \<^verbatim>\<open>GetByID\<close> finds the given record, and one whose \<^verbatim>\<open>Update\<close>
  stores what it is given without an error.
\<close>

definition repo_finding :: "Subscription \<Rightarrow> UUID \<Rightarrow> repo_error + Subscription" where
  "repo_finding existing ident = Inr existing"

definition repo_storing :: "Subscription \<Rightarrow> repo_error option" where
  "repo_storing subscription = None"

section \<open>Calendar months as the specification describes them\<close>

text \<open>
  A calendar month is a (year, month) pair with the month in 1..12 and the year in
  1900..9999, ordered by year and then by month.
\<close>

record CalendarMonth =
  cm_year :: int
  cm_month :: int

definition valid_cm :: "CalendarMonth \<Rightarrow> bool" where
  "valid_cm c = (1 \<le> cm_month c \<and> cm_month c \<le> 12 \<and> 1900 \<le> cm_year c \<and> cm_year c \<le> 9999)"

definition cm_precedes :: "CalendarMonth \<Rightarrow> CalendarMonth \<Rightarrow> bool" where
  "cm_precedes a b =
     (cm_year a < cm_year b \<or> (cm_year a = cm_year b \<and> cm_month a < cm_month b))"

definition cm_after :: "CalendarMonth \<Rightarrow> CalendarMonth \<Rightarrow> bool" where
  "cm_after a b =
     (cm_year a > cm_year b \<or> (cm_year a = cm_year b \<and> cm_month a > cm_month b))"

definition cm_le :: "CalendarMonth \<Rightarrow> CalendarMonth \<Rightarrow> bool" where
  "cm_le a b = (cm_precedes a b \<or> (cm_year a = cm_year b \<and> cm_month a = cm_month b))"

definition cm_max :: "CalendarMonth \<Rightarrow> CalendarMonth \<Rightarrow> CalendarMonth" where
  "cm_max a b = (if cm_after a b then a else b)"

definition cm_min :: "CalendarMonth \<Rightarrow> CalendarMonth \<Rightarrow> CalendarMonth" where
  "cm_min a b = (if cm_precedes a b then a else b)"

text \<open>The inclusive number of months from \<open>a\<close> to \<open>b\<close>.\<close>

definition cm_span :: "CalendarMonth \<Rightarrow> CalendarMonth \<Rightarrow> int" where
  "cm_span a b = (cm_year b - cm_year a) * 12 + (cm_month b - cm_month a) + 1"

text \<open>The time value that \<^const>\<open>parsePeriod\<close> builds for a calendar month.\<close>

definition cm_time :: "CalendarMonth \<Rightarrow> Time" where
  "cm_time c = time_Date (cm_year c) (cm_month c)"

text \<open>
  Parsing as the specification words it: the text splits on the separator into exactly two
  components, both parse as integers, the first is a month in 1..12 and the second a year
  in 1900..9999; anything else is an invalid format.
\<close>

definition cm_parse :: "string \<Rightarrow> CalendarMonth option" where
  "cm_parse text =
     (case Split text CHR ''-'' of
        [a, b] \<Rightarrow>
          (case (Atoi a, Atoi b) of
             ((m, None), (y, None)) \<Rightarrow>
               (if 1 \<le> m \<and> m \<le> 12 \<and> 1900 \<le> y \<and> y \<le> 9999
                then Some \<lparr>cm_year = y, cm_month = m\<rparr>
                else None)
           | _ \<Rightarrow> None)
      | _ \<Rightarrow> None)"

text \<open>The overlap of two closed month intervals, as the specification computes it.\<close>

definition cm_overlapMonths ::
  "CalendarMonth \<Rightarrow> CalendarMonth \<Rightarrow> CalendarMonth \<Rightarrow> CalendarMonth \<Rightarrow> int" where
  "cm_overlapMonths windowStart windowEnd subStart subEnd =
     (let effectiveStart = cm_max windowStart subStart;
          effectiveEnd = cm_min windowEnd subEnd
      in if cm_after effectiveStart effectiveEnd then 0
         else cm_span effectiveStart effectiveEnd)"

text \<open>
  The view of a subscription record that the aggregation uses: its price, read as a signed
  integer, its start month and its optional end month.  A record whose date strings are
  not valid months has no such view.
\<close>

record SubscriptionInterval =
  si_price :: int
  si_start :: CalendarMonth
  si_end :: "CalendarMonth option"

definition interval_of :: "Subscription \<Rightarrow> SubscriptionInterval option" where
  "interval_of sub =
     (case cm_parse (StartDate sub) of
        None \<Rightarrow> None
      | Some s \<Rightarrow>
          (case EndDate sub of
             None \<Rightarrow> Some \<lparr>si_price = sint (Price sub), si_start = s, si_end = None\<rparr>
           | Some endDate \<Rightarrow>
               (case cm_parse endDate of
                  None \<Rightarrow> None
                | Some e \<Rightarrow>
                    Some \<lparr>si_price = sint (Price sub), si_start = s, si_end = Some e\<rparr>)))"

text \<open>
  The contribution of one record to the total: an open-ended record is charged once when
  its start lies in the window, a closed record once for every month of overlap.
\<close>

definition contribution ::
  "CalendarMonth \<Rightarrow> CalendarMonth \<Rightarrow> SubscriptionInterval \<Rightarrow> int" where
  "contribution windowStart windowEnd iv =
     (case si_end iv of
        None \<Rightarrow>
          (if cm_le windowStart (si_start iv) \<and> cm_le (si_start iv) windowEnd
           then si_price iv else 0)
      | Some e \<Rightarrow> si_price iv * cm_overlapMonths windowStart windowEnd (si_start iv) e)"

definition cm_totalCost ::
  "CalendarMonth \<Rightarrow> CalendarMonth \<Rightarrow> SubscriptionInterval list \<Rightarrow> int" where
  "cm_totalCost windowStart windowEnd ivs = sum_list (map (contribution windowStart windowEnd) ivs)"

text \<open>The day of the year (from 0) on which month \<open>m\<close> of year \<open>y\<close> begins.\<close>

definition yday_of :: "int \<Rightarrow> int \<Rightarrow> int" where
  "yday_of y m = daysBefore ! nat (m - 1) + (if isLeap y \<and> m \<ge> 3 then 1 else 0)"

section \<open>The calendar arithmetic of the time package\<close>

lemma div_decomp: "0 \<le> r \<Longrightarrow> r < k \<Longrightarrow> (k * q + r) div k = (q::int)"
  by (simp add: div_pos_pos_trivial)

lemma small_div4: "0 \<le> n \<Longrightarrow> n \<le> 3 \<Longrightarrow> n - n div 4 = (n::int)"
  by simp

lemma absDate_cycles:
  assumes b: "0 \<le> b" "b \<le> 3" and c: "0 \<le> c" "c \<le> 24" and e: "0 \<le> e" "e \<le> 3"
    and off: "0 \<le> off" "off < 365"
  shows "absDate ((146097 * a + 36524 * b + 1461 * c + 365 * e + off) * 86400)
         = (400 * a + 100 * b + 4 * c + e + 1, off)"
proof -
  define R3 where "R3 = 365 * e + off"
  define R2 where "R2 = 1461 * c + R3"
  define R1 where "R1 = 36524 * b + R2"
  define D where "D = 146097 * a + R1"
  have t3: "0 \<le> R3" "R3 \<le> 1459" using e off by (simp_all add: R3_def)
  have t2: "0 \<le> R2" "R2 \<le> 36523" using c t3 by (simp_all add: R2_def)
  have t1: "0 \<le> R1" "R1 \<le> 146095" using b t2 by (simp_all add: R1_def)
  have r3: "0 \<le> R3" "R3 < 1461" using t3 by simp_all
  have r2: "0 \<le> R2" "R2 < 36524" using t2 by simp_all
  have r1: "0 \<le> R1" "R1 < 146097" using t1 by simp_all
  have s0: "(D * 86400) div 86400 = D" by simp
  have s1: "D div 146097 = a" unfolding D_def using r1 by (rule div_decomp)
  have s1': "D - 146097 * a = R1" by (simp add: D_def)
  have s2: "R1 div 36524 = b" unfolding R1_def using r2 by (rule div_decomp)
  have s2': "R1 - 36524 * b = R2" by (simp add: R1_def)
  have s3: "R2 div 1461 = c" unfolding R2_def using r3 by (rule div_decomp)
  have s3': "R2 - 1461 * c = R3" by (simp add: R2_def)
  have s4: "R3 div 365 = e" unfolding R3_def using off by (rule div_decomp)
  have s4': "R3 - 365 * e = off" by (simp add: R3_def)
  have sb: "b - b div 4 = b" using b by (rule small_div4)
  have se: "e - e div 4 = e" using e by (rule small_div4)
  have "absDate (D * 86400) = (400 * a + 100 * b + 4 * c + e + 1, off)"
    unfolding absDate_def Let_def s0 s1 s1' s2 sb s2' s3 s3' s4 se s4' by simp
  then show ?thesis by (simp add: D_def R1_def R2_def R3_def add.assoc)
qed

lemma daysSinceEpoch_cycles:
  "daysSinceEpoch y = 146097 * ((y - 1) div 400) + 36524 * (((y - 1) mod 400) div 100)
       + 1461 * (((y - 1) mod 100) div 4) + 365 * ((y - 1) mod 4)"
proof -
  define Y where "Y = y - 1"
  have m1: "Y - 400 * (Y div 400) = Y mod 400" by (simp add: minus_mult_div_eq_mod)
  have m2: "Y mod 400 - 100 * (Y mod 400 div 100) = Y mod 100"
    by (simp add: minus_mult_div_eq_mod mod_mod_cancel)
  have m3: "Y mod 100 - 4 * (Y mod 100 div 4) = Y mod 4"
    by (simp add: minus_mult_div_eq_mod mod_mod_cancel)
  show ?thesis
    unfolding daysSinceEpoch_def Let_def Y_def[symmetric] m1 m2 m3 by simp
qed

lemma year_cycles:
  "y = 400 * ((y - 1) div 400) + 100 * (((y - 1) mod 400) div 100)
       + 4 * (((y - 1) mod 100) div 4) + (y - 1) mod 4 + (1::int)"
proof -
  define Y where "Y = y - 1"
  have "Y = 400 * (Y div 400) + Y mod 400" by simp
  moreover have "Y mod 400 = 100 * (Y mod 400 div 100) + Y mod 100"
    using mult_div_mod_eq[of 100 "Y mod 400"] by (simp add: mod_mod_cancel)
  moreover have "Y mod 100 = 4 * (Y mod 100 div 4) + Y mod 4"
    using mult_div_mod_eq[of 4 "Y mod 100"] by (simp add: mod_mod_cancel)
  ultimately have "Y = 400 * (Y div 400) + 100 * (Y mod 400 div 100) + 4 * (Y mod 100 div 4) + Y mod 4"
    by linarith
  then show ?thesis by (simp add: Y_def)
qed

lemma div_succ:
  assumes "0 < (k::int)"
  shows "(Y + 1) div k = (if (Y + 1) mod k = 0 then Y div k + 1 else Y div k)"
proof -
  define q where "q = (Y + 1) div k"
  define r where "r = (Y + 1) mod k"
  have eq: "Y + 1 = k * q + r" by (simp add: q_def r_def)
  have r: "0 \<le> r" "r < k" using assms by (simp_all add: r_def)
  show ?thesis
  proof (cases "r = 0")
    case True
    have "Y = k * (q - 1) + (k - 1)" using eq True by (simp add: algebra_simps)
    then have "Y div k = q - 1" using div_decomp[of "k - 1" k "q - 1"] assms by simp
    then show ?thesis using True by (simp add: q_def r_def)
  next
    case False
    have "Y = k * q + (r - 1)" using eq by simp
    then have "Y div k = q" using div_decomp[of "r - 1" k q] r False by simp
    then show ?thesis using False by (simp add: q_def r_def)
  qed
qed

lemma daysSinceEpoch_closed:
  "daysSinceEpoch y = 365 * (y - 1) + (y - 1) div 4 - (y - 1) div 100 + (y - 1) div 400"
proof -
  define Y where "Y = y - 1"
  define a where "a = Y div 400"
  define b where "b = Y mod 400 div 100"
  define c where "c = Y mod 100 div 4"
  define e where "e = Y mod 4"
  have Y: "Y = 400 * a + 100 * b + 4 * c + e"
    using year_cycles[of y] by (simp add: Y_def a_def b_def c_def e_def)
  have bb: "0 \<le> b" "b \<le> 3" by (simp_all add: b_def) 
  have cb: "0 \<le> c" "c \<le> 24" by (simp_all add: c_def)
  have eb: "0 \<le> e" "e \<le> 3" by (simp_all add: e_def) 
  have "Y = 100 * (4 * a + b) + (4 * c + e)" using Y by simp
  then have d100: "Y div 100 = 4 * a + b"
    using div_decomp[of "4 * c + e" 100 "4 * a + b"] cb eb by simp
  have "Y = 4 * (100 * a + 25 * b + c) + e" using Y by simp
  then have d4: "Y div 4 = 100 * a + 25 * b + c"
    using div_decomp[of e 4 "100 * a + 25 * b + c"] eb by simp
  have "daysSinceEpoch y = 146097 * a + 36524 * b + 1461 * c + 365 * e"
    by (simp add: daysSinceEpoch_cycles Y_def a_def b_def c_def e_def)
  also have "\<dots> = 365 * Y + Y div 4 - Y div 100 + Y div 400"
    unfolding d100 d4 a_def[symmetric] using Y by simp
  finally show ?thesis by (simp add: Y_def)
qed

lemma daysSinceEpoch_succ: "daysSinceEpoch y + 365 \<le> daysSinceEpoch (y + 1)"
proof -
  have "(y mod 100 = 0) \<longrightarrow> (y mod 4 = 0)" by presburger
  then show ?thesis
    by (simp add: daysSinceEpoch_closed div_succ[of _ "y - 1", simplified])
qed

lemma daysSinceEpoch_mono:
  assumes "y \<le> y'"
  shows "daysSinceEpoch y + 365 * (y' - y) \<le> daysSinceEpoch y'"
  using assms
proof (induction y' rule: int_ge_induct)
  case base
  then show ?case by simp
next
  case (step i)
  then show ?case using daysSinceEpoch_succ[of i] by simp
qed

lemma norm_month: "1 \<le> m \<Longrightarrow> m \<le> 12 \<Longrightarrow> norm y (m - 1) 12 = (y, m - 1)"
  by (simp add: norm_def)

lemma month_disj:
  "1 \<le> m \<Longrightarrow> m \<le> 12 \<Longrightarrow>
   m = 1 \<or> m = 2 \<or> m = 3 \<or> m = 4 \<or> m = 5 \<or> m = 6
     \<or> m = 7 \<or> m = 8 \<or> m = 9 \<or> m = 10 \<or> m = 11 \<or> m = (12::int)"
  by arith

lemma month_cases:
  assumes "1 \<le> m" "m \<le> 12"
  obtains "m = 1" | "m = 2" | "m = 3" | "m = 4" | "m = 5" | "m = 6"
    | "m = 7" | "m = 8" | "m = 9" | "m = 10" | "m = 11" | "m = (12::int)"
  using month_disj[OF assms] by blast

lemma yday_of_bounds:
  assumes "1 \<le> m" "m \<le> 12"
  shows "0 \<le> yday_of y m" "yday_of y m \<le> 335"
  using assms by (cases m rule: month_cases; simp add: yday_of_def daysBefore_def)+

lemma yday_of_mono:
  assumes "1 \<le> m" "m < m'" "m' \<le> 12"
  shows "yday_of y m < yday_of y m'"
proof -
  have m: "1 \<le> m" "m \<le> 12" and m': "1 \<le> m'" "m' \<le> 12" using assms by simp_all
  show ?thesis
    by (insert assms(2), rule month_cases[OF m]; rule month_cases[OF m'];
        simp add: yday_of_def daysBefore_def)
qed

lemma time_Date_eq:
  "1 \<le> m \<Longrightarrow> m \<le> 12 \<Longrightarrow> time_Date y m = Time ((daysSinceEpoch y + yday_of y m) * 86400)"
  by (simp add: time_Date_def norm_month yday_of_def Let_def)

lemma monthOfYday_yday_of:
  assumes "1 \<le> m" "m \<le> 12"
  shows "monthOfYday y (yday_of y m) = m"
  using assms
  by (cases m rule: month_cases; cases "isLeap y";
      simp add: yday_of_def daysBefore_def monthOfYday_def Let_def)

lemma absDate_time_Date:
  assumes "1 \<le> m" "m \<le> 12"
  shows "absDate (sec (time_Date y m)) = (y, yday_of y m)"
proof -
  define Y where "Y = y - 1"
  have off: "0 \<le> yday_of y m" "yday_of y m < 365"
    using yday_of_bounds[OF assms, of y] by simp_all
  have "absDate (sec (time_Date y m))
        = absDate ((146097 * (Y div 400) + 36524 * (Y mod 400 div 100)
             + 1461 * (Y mod 100 div 4) + 365 * (Y mod 4) + yday_of y m) * 86400)"
    by (simp add: time_Date_eq[OF assms] daysSinceEpoch_cycles Y_def)
  also have "\<dots> = (400 * (Y div 400) + 100 * (Y mod 400 div 100)
             + 4 * (Y mod 100 div 4) + Y mod 4 + 1, yday_of y m)"
    by (rule absDate_cycles) (use off in simp_all)
  also have "\<dots> = (y, yday_of y m)"
    using year_cycles[of y] by (simp add: Y_def)
  finally show ?thesis .
qed

lemma Year_time_Date: "1 \<le> m \<Longrightarrow> m \<le> 12 \<Longrightarrow> Year (time_Date y m) = y"
  by (simp add: Year_def absDate_time_Date)

lemma Month_time_Date: "1 \<le> m \<Longrightarrow> m \<le> 12 \<Longrightarrow> Month (time_Date y m) = m"
  by (simp add: Month_def absDate_time_Date monthOfYday_yday_of)

lemma sec_time_Date_less:
  assumes m: "1 \<le> m" "m \<le> 12" and m': "1 \<le> m'" "m' \<le> 12"
    and lt: "y < y' \<or> (y = y' \<and> m < m')"
  shows "sec (time_Date y m) < sec (time_Date y' m')"
proof -
  have "daysSinceEpoch y + yday_of y m < daysSinceEpoch y' + yday_of y' m'"
  proof (cases "y < y'")
    case True
    then have "y + 1 \<le> y'" by simp
    then have "daysSinceEpoch (y + 1) \<le> daysSinceEpoch y'"
      using daysSinceEpoch_mono[of "y + 1" y'] by simp
    then have "daysSinceEpoch y + 365 \<le> daysSinceEpoch y'"
      using daysSinceEpoch_succ[of y] by simp
    then show ?thesis
      using yday_of_bounds[OF m, of y] yday_of_bounds[OF m', of y'] by simp
  next
    case False
    then have "y = y'" "m < m'" using lt by simp_all
    then show ?thesis using yday_of_mono[of m m' y] m m' by simp
  qed
  then show ?thesis by (simp add: time_Date_eq m m')
qed

lemma After_time_Date:
  assumes m: "1 \<le> m" "m \<le> 12" and m': "1 \<le> m'" "m' \<le> 12"
  shows "After (time_Date y m) (time_Date y' m') \<longleftrightarrow> (y > y' \<or> (y = y' \<and> m > m'))"
proof
  assume "After (time_Date y m) (time_Date y' m')"
  then have gt: "sec (time_Date y' m') < sec (time_Date y m)" by (simp add: After_def)
  show "y > y' \<or> (y = y' \<and> m > m')"
  proof (rule ccontr)
    assume "\<not> (y > y' \<or> (y = y' \<and> m > m'))"
    then consider "y < y' \<or> (y = y' \<and> m < m')" | "y = y'" "m = m'" by linarith
    then show False
    proof cases
      case 1
      then show ?thesis using sec_time_Date_less[OF m m', of y y'] gt by simp
    next
      case 2
      then show ?thesis using gt by simp
    qed
  qed
next
  assume "y > y' \<or> (y = y' \<and> m > m')"
  then have "y' < y \<or> (y' = y \<and> m' < m)" by auto
  then show "After (time_Date y m) (time_Date y' m')"
    using sec_time_Date_less[OF m' m] by (simp add: After_def)
qed

lemma Before_After: "Before t u = After u t"
  by (simp add: Before_def After_def)

section \<open>Calendar months and their time values\<close>

lemma After_cm_time:
  assumes "valid_cm a" "valid_cm b"
  shows "After (cm_time a) (cm_time b) = cm_after a b"
  using assms by (simp add: cm_time_def cm_after_def After_time_Date valid_cm_def)

lemma Before_cm_time:
  assumes "valid_cm a" "valid_cm b"
  shows "Before (cm_time a) (cm_time b) = cm_precedes a b"
  using assms
  by (auto simp: Before_After cm_time_def cm_precedes_def After_time_Date valid_cm_def)

lemma Year_cm_time: "valid_cm c \<Longrightarrow> Year (cm_time c) = cm_year c"
  by (simp add: cm_time_def Year_time_Date valid_cm_def)

lemma Month_cm_time: "valid_cm c \<Longrightarrow> Month (cm_time c) = cm_month c"
  by (simp add: cm_time_def Month_time_Date valid_cm_def)

lemma maxTime_cm_time:
  "valid_cm a \<Longrightarrow> valid_cm b \<Longrightarrow> maxTime (cm_time a) (cm_time b) = cm_time (cm_max a b)"
  by (simp add: maxTime_def cm_max_def After_cm_time)

lemma minTime_cm_time:
  "valid_cm a \<Longrightarrow> valid_cm b \<Longrightarrow> minTime (cm_time a) (cm_time b) = cm_time (cm_min a b)"
  by (simp add: minTime_def cm_min_def Before_cm_time)

lemma valid_cm_max: "valid_cm a \<Longrightarrow> valid_cm b \<Longrightarrow> valid_cm (cm_max a b)"
  by (simp add: cm_max_def)

lemma valid_cm_min: "valid_cm a \<Longrightarrow> valid_cm b \<Longrightarrow> valid_cm (cm_min a b)"
  by (simp add: cm_min_def)

lemma calculateOverlapMonths_cm:
  assumes "valid_cm ws" "valid_cm we" "valid_cm ss" "valid_cm se"
  shows "calculateOverlapMonths (cm_time ws) (cm_time we) (cm_time ss) (cm_time se)
         = cm_overlapMonths ws we ss se"
proof -
  have s: "valid_cm (cm_max ws ss)" and e: "valid_cm (cm_min we se)"
    using assms by (simp_all add: valid_cm_max valid_cm_min)
  show ?thesis
    unfolding calculateOverlapMonths_def cm_overlapMonths_def Let_def
      maxTime_cm_time[OF assms(1,3)] minTime_cm_time[OF assms(2,4)]
      After_cm_time[OF s e] Year_cm_time[OF s] Year_cm_time[OF e]
      Month_cm_time[OF s] Month_cm_time[OF e]
    by (simp add: cm_span_def)
qed

text \<open>The position of a month on the line of months.\<close>

lemma cm_after_index:
  assumes "valid_cm a" "valid_cm b"
  shows "cm_after a b \<longleftrightarrow> cm_year a * 12 + cm_month a > cm_year b * 12 + cm_month b"
  using assms by (auto simp: cm_after_def valid_cm_def)

lemma cm_precedes_index:
  assumes "valid_cm a" "valid_cm b"
  shows "cm_precedes a b \<longleftrightarrow> cm_year a * 12 + cm_month a < cm_year b * 12 + cm_month b"
  using assms by (auto simp: cm_precedes_def valid_cm_def)

lemma cm_max_index:
  assumes "valid_cm a" "valid_cm b"
  shows "cm_year (cm_max a b) * 12 + cm_month (cm_max a b)
         = max (cm_year a * 12 + cm_month a) (cm_year b * 12 + cm_month b)"
  using assms by (simp add: cm_max_def cm_after_index)

lemma cm_min_index:
  assumes "valid_cm a" "valid_cm b"
  shows "cm_year (cm_min a b) * 12 + cm_month (cm_min a b)
         = min (cm_year a * 12 + cm_month a) (cm_year b * 12 + cm_month b)"
  using assms by (simp add: cm_min_def cm_precedes_index)

lemma cm_span_index:
  "cm_span a b = (cm_year b * 12 + cm_month b) - (cm_year a * 12 + cm_month a) + 1"
  by (simp add: cm_span_def algebra_simps)

lemma cm_overlapMonths_index:
  assumes "valid_cm ws" "valid_cm we" "valid_cm ss" "valid_cm se"
  shows "cm_overlapMonths ws we ss se
         = max 0 (min (cm_year we * 12 + cm_month we) (cm_year se * 12 + cm_month se)
                  - max (cm_year ws * 12 + cm_month ws) (cm_year ss * 12 + cm_month ss) + 1)"
proof -
  have s: "valid_cm (cm_max ws ss)" and e: "valid_cm (cm_min we se)"
    using assms by (simp_all add: valid_cm_max valid_cm_min)
  show ?thesis
    unfolding cm_overlapMonths_def Let_def cm_after_index[OF s e] cm_span_index
      cm_max_index[OF assms(1,3)] cm_min_index[OF assms(2,4)]
    by simp
qed

lemma maxTime_commute: "maxTime a b = maxTime b a"
  by (cases a; cases b) (auto simp: maxTime_def After_def)

lemma minTime_commute: "minTime a b = minTime b a"
  by (cases a; cases b) (auto simp: minTime_def Before_def)

section \<open>Claims about the overlap computation\<close>

text \<open>
  Claim C1.  For a query window and a closed subscription interval given by four valid
  calendar months, \<^const>\<open>calculateOverlapMonths\<close> returns 0 when the later of the two
  starts is strictly after the earlier of the two ends, and otherwise the year difference
  times 12 plus the month difference plus 1 between that end and that start; in the second
  case the result is at least 1.
\<close>

theorem C1_overlap_formula:
  assumes "valid_cm windowStart" "valid_cm windowEnd" "valid_cm subStart" "valid_cm subEnd"
  shows "calculateOverlapMonths (cm_time windowStart) (cm_time windowEnd)
             (cm_time subStart) (cm_time subEnd)
         = (if cm_after (cm_max windowStart subStart) (cm_min windowEnd subEnd) then 0
            else (cm_year (cm_min windowEnd subEnd) - cm_year (cm_max windowStart subStart)) * 12
                 + (cm_month (cm_min windowEnd subEnd) - cm_month (cm_max windowStart subStart))
                 + 1)
       \<and> (\<not> cm_after (cm_max windowStart subStart) (cm_min windowEnd subEnd)
            \<longrightarrow> calculateOverlapMonths (cm_time windowStart) (cm_time windowEnd)
                   (cm_time subStart) (cm_time subEnd) \<ge> 1)"
proof -
  have s: "valid_cm (cm_max windowStart subStart)" and e: "valid_cm (cm_min windowEnd subEnd)"
    using assms by (simp_all add: valid_cm_max valid_cm_min)
  have "\<not> cm_after (cm_max windowStart subStart) (cm_min windowEnd subEnd)
        \<Longrightarrow> cm_span (cm_max windowStart subStart) (cm_min windowEnd subEnd) \<ge> 1"
    unfolding cm_after_index[OF s e] cm_span_index by simp
  then show ?thesis
    unfolding calculateOverlapMonths_cm[OF assms] cm_overlapMonths_def Let_def
    by (simp add: cm_span_def)
qed

theorem C1_overlap_formula_witness:
  "calculateOverlapMonths (cm_time \<lparr>cm_year = 2025, cm_month = 1\<rparr>)
      (cm_time \<lparr>cm_year = 2025, cm_month = 12\<rparr>)
      (cm_time \<lparr>cm_year = 2024, cm_month = 6\<rparr>)
      (cm_time \<lparr>cm_year = 2025, cm_month = 3\<rparr>) = 3
   \<and> calculateOverlapMonths (cm_time \<lparr>cm_year = 2025, cm_month = 1\<rparr>)
      (cm_time \<lparr>cm_year = 2025, cm_month = 3\<rparr>)
      (cm_time \<lparr>cm_year = 2025, cm_month = 4\<rparr>)
      (cm_time \<lparr>cm_year = 2025, cm_month = 8\<rparr>) = 0"
  using C1_overlap_formula[of "\<lparr>cm_year = 2025, cm_month = 1\<rparr>" "\<lparr>cm_year = 2025, cm_month = 12\<rparr>"
      "\<lparr>cm_year = 2024, cm_month = 6\<rparr>" "\<lparr>cm_year = 2025, cm_month = 3\<rparr>"]
    C1_overlap_formula[of "\<lparr>cm_year = 2025, cm_month = 1\<rparr>" "\<lparr>cm_year = 2025, cm_month = 3\<rparr>"
      "\<lparr>cm_year = 2025, cm_month = 4\<rparr>" "\<lparr>cm_year = 2025, cm_month = 8\<rparr>"]
  by (simp add: valid_cm_def cm_after_def cm_precedes_def cm_max_def cm_min_def)

text \<open>
  Claim C6.  When the closed subscription interval contains the window, the overlap is the
  inclusive month span of the window, whatever the subscription's own start and end are;
  a single month against itself overlaps in 1 month.
\<close>

theorem C6_containing_subscription:
  assumes "valid_cm wStart" "valid_cm wEnd" "valid_cm subStart" "valid_cm subEnd" "valid_cm x"
  shows "(\<not> cm_after wStart wEnd \<and> \<not> cm_after subStart wStart \<and> \<not> cm_after wEnd subEnd
            \<longrightarrow> calculateOverlapMonths (cm_time wStart) (cm_time wEnd)
                  (cm_time subStart) (cm_time subEnd)
                = (cm_year wEnd - cm_year wStart) * 12 + (cm_month wEnd - cm_month wStart) + 1)
       \<and> calculateOverlapMonths (cm_time x) (cm_time x) (cm_time x) (cm_time x) = 1"
proof -
  have "calculateOverlapMonths (cm_time x) (cm_time x) (cm_time x) (cm_time x) = 1"
    unfolding calculateOverlapMonths_cm[OF assms(5,5,5,5)]
      cm_overlapMonths_index[OF assms(5,5,5,5)] by simp
  moreover have "calculateOverlapMonths (cm_time wStart) (cm_time wEnd)
                  (cm_time subStart) (cm_time subEnd)
                = (cm_year wEnd - cm_year wStart) * 12 + (cm_month wEnd - cm_month wStart) + 1"
    if "\<not> cm_after wStart wEnd" "\<not> cm_after subStart wStart" "\<not> cm_after wEnd subEnd"
    using that
    unfolding calculateOverlapMonths_cm[OF assms(1-4)]
      cm_overlapMonths_index[OF assms(1-4)]
      cm_after_index[OF assms(1,2)] cm_after_index[OF assms(3,1)] cm_after_index[OF assms(2,4)]
    by simp
  ultimately show ?thesis by blast
qed

theorem C6_containing_subscription_witness:
  "calculateOverlapMonths (cm_time \<lparr>cm_year = 2025, cm_month = 3\<rparr>)
      (cm_time \<lparr>cm_year = 2025, cm_month = 5\<rparr>)
      (cm_time \<lparr>cm_year = 2024, cm_month = 11\<rparr>)
      (cm_time \<lparr>cm_year = 2026, cm_month = 2\<rparr>) = 3
   \<and> calculateOverlapMonths (cm_time \<lparr>cm_year = 2024, cm_month = 2\<rparr>)
      (cm_time \<lparr>cm_year = 2024, cm_month = 2\<rparr>)
      (cm_time \<lparr>cm_year = 2024, cm_month = 2\<rparr>)
      (cm_time \<lparr>cm_year = 2024, cm_month = 2\<rparr>) = 1"
  using C6_containing_subscription[of "\<lparr>cm_year = 2025, cm_month = 3\<rparr>"
      "\<lparr>cm_year = 2025, cm_month = 5\<rparr>" "\<lparr>cm_year = 2024, cm_month = 11\<rparr>"
      "\<lparr>cm_year = 2026, cm_month = 2\<rparr>" "\<lparr>cm_year = 2024, cm_month = 2\<rparr>"]
  by (simp add: valid_cm_def cm_after_def)

text \<open>
  Claim C7.  With the window start and the closed subscription interval fixed, moving the
  window end to a later month never makes the overlap smaller.
\<close>

theorem C7_monotone_in_window_end:
  assumes "valid_cm wStart" "valid_cm subStart" "valid_cm subEnd" "valid_cm e1" "valid_cm e2"
    and "\<not> cm_after e1 e2"
  shows "calculateOverlapMonths (cm_time wStart) (cm_time e1) (cm_time subStart) (cm_time subEnd)
         \<le> calculateOverlapMonths (cm_time wStart) (cm_time e2) (cm_time subStart) (cm_time subEnd)"
  using assms(6)
  unfolding calculateOverlapMonths_cm[OF assms(1,4,2,3)] calculateOverlapMonths_cm[OF assms(1,5,2,3)]
    cm_overlapMonths_index[OF assms(1,4,2,3)] cm_overlapMonths_index[OF assms(1,5,2,3)]
    cm_after_index[OF assms(4,5)]
  by simp

theorem C7_monotone_in_window_end_witness:
  "calculateOverlapMonths (cm_time \<lparr>cm_year = 2025, cm_month = 1\<rparr>)
      (cm_time \<lparr>cm_year = 2025, cm_month = 2\<rparr>)
      (cm_time \<lparr>cm_year = 2024, cm_month = 6\<rparr>)
      (cm_time \<lparr>cm_year = 2025, cm_month = 3\<rparr>)
   \<le> calculateOverlapMonths (cm_time \<lparr>cm_year = 2025, cm_month = 1\<rparr>)
      (cm_time \<lparr>cm_year = 2025, cm_month = 12\<rparr>)
      (cm_time \<lparr>cm_year = 2024, cm_month = 6\<rparr>)
      (cm_time \<lparr>cm_year = 2025, cm_month = 3\<rparr>)"
  using C7_monotone_in_window_end[of "\<lparr>cm_year = 2025, cm_month = 1\<rparr>"
      "\<lparr>cm_year = 2024, cm_month = 6\<rparr>" "\<lparr>cm_year = 2025, cm_month = 3\<rparr>"
      "\<lparr>cm_year = 2025, cm_month = 2\<rparr>" "\<lparr>cm_year = 2025, cm_month = 12\<rparr>"]
  by (simp add: valid_cm_def cm_after_def)

text \<open>
  Claim C10.  Exchanging the query window and the subscription interval does not change
  the overlap.  This holds for all time values, so for those of calendar months too.
\<close>

theorem C10_overlap_symmetric:
  "calculateOverlapMonths a b c d = calculateOverlapMonths c d a b"
  unfolding calculateOverlapMonths_def maxTime_commute[of a c] minTime_commute[of b d] ..

section \<open>Splitting, validating and parsing period strings\<close>

lemma Split_nonempty: "Split s sep \<noteq> []"
proof (induction s)
  case Nil
  show ?case by simp
next
  case (Cons c cs)
  then obtain p ps where "Split cs sep = p # ps" by (cases "Split cs sep") simp_all
  then show ?case by simp
qed

lemma Split_Cons_sep: "Split (sep # cs) sep = [] # Split cs sep"
  by simp

lemma Split_one_iff: "Split s sep = [a] \<longleftrightarrow> s = a \<and> sep \<notin> set a"
proof (induction s arbitrary: a)
  case Nil
  show ?case by auto
next
  case (Cons c cs)
  show ?case
  proof (cases "c = sep")
    case True
    have "Split (c # cs) sep \<noteq> [a]"
      using True Split_nonempty[of cs sep] by (simp del: Split.simps add: Split_Cons_sep)
    moreover have "\<not> (c # cs = a \<and> sep \<notin> set a)" using True by auto
    ultimately show ?thesis by blast
  next
    case False
    obtain p ps where sp: "Split cs sep = p # ps"
      using Split_nonempty[of cs sep] by (cases "Split cs sep") simp_all
    have eq: "Split (c # cs) sep = (c # p) # ps" using False sp by simp
    show ?thesis
    proof
      assume "Split (c # cs) sep = [a]"
      then have a: "a = c # p" and ps: "ps = []" using eq by simp_all
      then have "Split cs sep = [p]" using sp by simp
      then have "cs = p \<and> sep \<notin> set p" using Cons.IH[of p] by simp
      then show "c # cs = a \<and> sep \<notin> set a" using a False by auto
    next
      assume r: "c # cs = a \<and> sep \<notin> set a"
      then have "sep \<notin> set cs" by auto
      then have "Split cs sep = [cs]" using Cons.IH[of cs] by simp
      then show "Split (c # cs) sep = [a]" using eq sp r by simp
    qed
  qed
qed

lemma Split_two_iff:
  "Split s sep = [a, b] \<longleftrightarrow> s = a @ sep # b \<and> sep \<notin> set a \<and> sep \<notin> set b"
proof (induction s arbitrary: a)
  case Nil
  show ?case by simp
next
  case (Cons c cs)
  show ?case
  proof (cases "c = sep")
    case True
    have "Split (c # cs) sep = [a, b] \<longleftrightarrow> a = [] \<and> Split cs sep = [b]"
      using True by (auto simp del: Split.simps simp add: Split_Cons_sep)
    also have "\<dots> \<longleftrightarrow> a = [] \<and> cs = b \<and> sep \<notin> set b"
      by (simp add: Split_one_iff)
    also have "\<dots> \<longleftrightarrow> c # cs = a @ sep # b \<and> sep \<notin> set a \<and> sep \<notin> set b"
    proof (cases a)
      case Nil
      then show ?thesis using True by auto
    next
      case (Cons a0 as)
      then show ?thesis using True by auto
    qed
    finally show ?thesis .
  next
    case False
    obtain p ps where sp: "Split cs sep = p # ps"
      using Split_nonempty[of cs sep] by (cases "Split cs sep") simp_all
    have eq: "Split (c # cs) sep = (c # p) # ps" using False sp by simp
    show ?thesis
    proof (cases a)
      case Nil
      have "Split (c # cs) sep \<noteq> [a, b]" using eq Nil by simp
      moreover have "\<not> (c # cs = a @ sep # b \<and> sep \<notin> set a \<and> sep \<notin> set b)"
        using Nil False by simp
      ultimately show ?thesis by blast
    next
      case (Cons a0 as)
      have "Split (c # cs) sep = [a, b] \<longleftrightarrow> a0 = c \<and> Split cs sep = [as, b]"
        using eq sp Cons by auto
      also have "\<dots> \<longleftrightarrow> a0 = c \<and> cs = as @ sep # b \<and> sep \<notin> set as \<and> sep \<notin> set b"
        using Cons.IH[of as] by simp
      also have "\<dots> \<longleftrightarrow> c # cs = a @ sep # b \<and> sep \<notin> set a \<and> sep \<notin> set b"
        using Cons False by auto
      finally show ?thesis .
    qed
  qed
qed

lemma length_two: "length xs = 2 \<longleftrightarrow> (\<exists>a b. xs = [a, b])"
proof (cases xs)
  case Nil
  then show ?thesis by simp
next
  case (Cons a ys)
  then show ?thesis by (cases ys) auto
qed

lemma cm_parse_two:
  assumes "Split s CHR ''-'' = [a, b]" "Atoi a = (m, e1)" "Atoi b = (y, e2)"
  shows "cm_parse s = (if e1 = None \<and> e2 = None \<and> 1 \<le> m \<and> m \<le> 12 \<and> 1900 \<le> y \<and> y \<le> 9999
                       then Some \<lparr>cm_year = y, cm_month = m\<rparr> else None)"
proof (cases e1)
  case None
  show ?thesis
  proof (cases e2)
    case None
    then show ?thesis using assms \<open>e1 = None\<close> by (simp add: cm_parse_def)
  next
    case (Some x)
    then show ?thesis using assms \<open>e1 = None\<close> by (simp add: cm_parse_def)
  qed
next
  case (Some x)
  then show ?thesis using assms by (simp add: cm_parse_def)
qed

lemma cm_parse_not_two:
  assumes "length (Split s CHR ''-'') \<noteq> 2"
  shows "cm_parse s = None"
proof (cases "Split s CHR ''-''")
  case Nil
  then show ?thesis by (simp add: cm_parse_def)
next
  case (Cons a ys)
  note c1 = this
  show ?thesis
  proof (cases ys)
    case Nil
    then show ?thesis using c1 by (simp add: cm_parse_def)
  next
    case (Cons b zs)
    note c2 = this
    show ?thesis
    proof (cases zs)
      case Nil
      then show ?thesis using assms c1 c2 by simp
    next
      case (Cons c ws)
      then show ?thesis using c1 c2 by (simp add: cm_parse_def)
    qed
  qed
qed

lemma length_twoD: "length xs = 2 \<Longrightarrow> \<exists>a b. xs = [a, b]"
  by (simp add: length_two)

lemma isValidDateFormat_two:
  assumes "Split s CHR ''-'' = [a, b]" "Atoi a = (m, e1)" "Atoi b = (y, e2)"
  shows "isValidDateFormat s
         \<longleftrightarrow> (e1 = None \<and> e2 = None \<and> 1 \<le> m \<and> m \<le> 12 \<and> 1900 \<le> y \<and> y \<le> 9999)"
  using assms by (simp add: isValidDateFormat_def)

lemma isValidDateFormat_not_two:
  "length (Split s CHR ''-'') \<noteq> 2 \<Longrightarrow> \<not> isValidDateFormat s"
  by (simp add: isValidDateFormat_def)

lemma isValidDateFormat_cm_parse: "isValidDateFormat s \<longleftrightarrow> cm_parse s \<noteq> None"
proof (cases "length (Split s CHR ''-'') = 2")
  case False
  then show ?thesis by (simp add: isValidDateFormat_not_two cm_parse_not_two)
next
  case True
  from length_twoD[OF True] obtain a b where ab: "Split s CHR ''-'' = [a, b]" by (elim exE)
  obtain m e1 where A: "Atoi a = (m, e1)" by (cases "Atoi a")
  obtain y e2 where B: "Atoi b = (y, e2)" by (cases "Atoi b")
  show ?thesis
    unfolding isValidDateFormat_two[OF ab A B] cm_parse_two[OF ab A B] by simp
qed

lemma cm_parse_SomeD:
  assumes "cm_parse s = Some c"
  shows "\<exists>a b. Split s CHR ''-'' = [a, b] \<and> Atoi a = (cm_month c, None)
           \<and> Atoi b = (cm_year c, None) \<and> valid_cm c"
proof -
  have two: "length (Split s CHR ''-'') = 2"
  proof (rule ccontr)
    assume "length (Split s CHR ''-'') \<noteq> 2"
    then have "cm_parse s = None" by (rule cm_parse_not_two)
    then show False using assms by simp
  qed
  from length_twoD[OF two] obtain a b where ab: "Split s CHR ''-'' = [a, b]" by (elim exE)
  obtain m e1 where A: "Atoi a = (m, e1)" by (cases "Atoi a")
  obtain y e2 where B: "Atoi b = (y, e2)" by (cases "Atoi b")
  have c: "e1 = None \<and> e2 = None \<and> 1 \<le> m \<and> m \<le> 12 \<and> 1900 \<le> y \<and> y \<le> 9999
           \<and> c = \<lparr>cm_year = y, cm_month = m\<rparr>"
    using assms unfolding cm_parse_two[OF ab A B] by (simp split: if_splits)
  then show ?thesis using ab A B by (simp add: valid_cm_def)
qed

lemma cm_parse_valid:
  assumes "cm_parse s = Some c"
  shows "valid_cm c"
  using cm_parse_SomeD[OF assms] by (elim exE conjE)

lemma parsePeriod_cm_parse:
  assumes "cm_parse s = Some c"
  shows "parsePeriod s = Inr (cm_time c, None)"
proof -
  from cm_parse_SomeD[OF assms] obtain a b where "Split s CHR ''-'' = [a, b]"
      "Atoi a = (cm_month c, None)" "Atoi b = (cm_year c, None)"
    by (elim exE conjE)
  then show ?thesis by (simp add: parsePeriod_def cm_time_def)
qed

lemma parsePeriod_no_separator:
  assumes "CHR ''-'' \<notin> set s"
  shows "parsePeriod s = Inl PanicIndexOutOfRange"
proof -
  have "Split s CHR ''-'' = [s]" using assms by (simp add: Split_one_iff)
  then show ?thesis by (simp add: parsePeriod_def split: prod.splits)
qed

section \<open>Claims about validation and parsing\<close>

text \<open>
  Claim C4.  The format check accepts a string exactly when it consists of two pieces
  around a single separator (neither piece contains the separator), both pieces convert
  to integers without error, the first lies in 1..12 and the second in 1900..9999.
\<close>

theorem C4_valid_format_iff:
  "isValidDateFormat date \<longleftrightarrow>
     (\<exists>a b month year.
        date = a @ CHR ''-'' # b \<and> CHR ''-'' \<notin> set a \<and> CHR ''-'' \<notin> set b
        \<and> Split date CHR ''-'' = [a, b]
        \<and> Atoi a = (month, None) \<and> Atoi b = (year, None)
        \<and> 1 \<le> month \<and> month \<le> 12 \<and> 1900 \<le> year \<and> year \<le> 9999)"
proof
  assume v: "isValidDateFormat date"
  have two: "length (Split date CHR ''-'') = 2"
    using v isValidDateFormat_not_two[of date] by (rule_tac ccontr) simp
  from length_twoD[OF two] obtain a b where ab: "Split date CHR ''-'' = [a, b]" by (elim exE)
  obtain m e1 where A: "Atoi a = (m, e1)" by (cases "Atoi a")
  obtain y e2 where B: "Atoi b = (y, e2)" by (cases "Atoi b")
  have r: "e1 = None \<and> e2 = None \<and> 1 \<le> m \<and> m \<le> 12 \<and> 1900 \<le> y \<and> y \<le> 9999"
    using v unfolding isValidDateFormat_two[OF ab A B] .
  have sp: "date = a @ CHR ''-'' # b \<and> CHR ''-'' \<notin> set a \<and> CHR ''-'' \<notin> set b"
    using ab unfolding Split_two_iff .
  show "\<exists>a b month year.
        date = a @ CHR ''-'' # b \<and> CHR ''-'' \<notin> set a \<and> CHR ''-'' \<notin> set b
        \<and> Split date CHR ''-'' = [a, b]
        \<and> Atoi a = (month, None) \<and> Atoi b = (year, None)
        \<and> 1 \<le> month \<and> month \<le> 12 \<and> 1900 \<le> year \<and> year \<le> 9999"
    apply (rule exI[of _ a], rule exI[of _ b], rule exI[of _ m], rule exI[of _ y])
    using sp ab A B r by simp
next
  assume "\<exists>a b month year.
        date = a @ CHR ''-'' # b \<and> CHR ''-'' \<notin> set a \<and> CHR ''-'' \<notin> set b
        \<and> Split date CHR ''-'' = [a, b]
        \<and> Atoi a = (month, None) \<and> Atoi b = (year, None)
        \<and> 1 \<le> month \<and> month \<le> 12 \<and> 1900 \<le> year \<and> year \<le> 9999"
  then obtain a b m y where ab: "Split date CHR ''-'' = [a, b]"
    and A: "Atoi a = (m, None)" and B: "Atoi b = (y, None)"
    and r: "1 \<le> m \<and> m \<le> 12 \<and> 1900 \<le> y \<and> y \<le> 9999"
    by (elim exE conjE) simp
  show "isValidDateFormat date"
    unfolding isValidDateFormat_two[OF ab A B] using r by simp
qed

theorem C4_valid_format_iff_witness:
  "isValidDateFormat ''07-2025'' \<and> \<not> isValidDateFormat ''13-2025''
   \<and> \<not> isValidDateFormat ''07-2025-01''"
proof -
  have "\<exists>a b month year.
        ''07-2025'' = a @ CHR ''-'' # b \<and> CHR ''-'' \<notin> set a \<and> CHR ''-'' \<notin> set b
        \<and> Split ''07-2025'' CHR ''-'' = [a, b]
        \<and> Atoi a = (month, None) \<and> Atoi b = (year, None)
        \<and> 1 \<le> month \<and> month \<le> 12 \<and> 1900 \<le> year \<and> year \<le> 9999"
    by (rule exI[of _ "''07''"], rule exI[of _ "''2025''"], rule exI[of _ 7],
        rule exI[of _ 2025])
      (simp add: Atoi_def ParseInt_def ParseUint_def isDigit_def maxUint64_def)
  then have a: "isValidDateFormat ''07-2025''"
    using C4_valid_format_iff[of "''07-2025''"] by simp
  have "\<not> (\<exists>a b month year.
        ''13-2025'' = a @ CHR ''-'' # b \<and> CHR ''-'' \<notin> set a \<and> CHR ''-'' \<notin> set b
        \<and> Split ''13-2025'' CHR ''-'' = [a, b]
        \<and> Atoi a = (month, None) \<and> Atoi b = (year, None)
        \<and> 1 \<le> month \<and> month \<le> 12 \<and> 1900 \<le> year \<and> year \<le> 9999)"
    by (auto simp: Atoi_def ParseInt_def ParseUint_def isDigit_def maxUint64_def)
  then have b: "\<not> isValidDateFormat ''13-2025''"
    using C4_valid_format_iff[of "''13-2025''"] by simp
  have "\<not> (\<exists>a b month year.
        ''07-2025-01'' = a @ CHR ''-'' # b \<and> CHR ''-'' \<notin> set a \<and> CHR ''-'' \<notin> set b
        \<and> Split ''07-2025-01'' CHR ''-'' = [a, b]
        \<and> Atoi a = (month, None) \<and> Atoi b = (year, None)
        \<and> 1 \<le> month \<and> month \<le> 12 \<and> 1900 \<le> year \<and> year \<le> 9999)"
    by simp
  then have c: "\<not> isValidDateFormat ''07-2025-01''"
    using C4_valid_format_iff[of "''07-2025-01''"] by simp
  show ?thesis using a b c by simp
qed

text \<open>
  Claim C9.  The time value parsed from the text of a calendar month is the one built from
  its year and month, and on valid calendar months the comparisons of these time values
  agree with the order on (year, month) pairs: the time of \<open>a\<close> is after the time of \<open>b\<close>
  exactly when the year of \<open>a\<close> is greater, or the years are equal and the month of \<open>a\<close>
  is greater; and likewise for before.
\<close>

theorem C9_time_order_is_month_order:
  assumes "valid_cm a" "valid_cm b"
  shows "(After (cm_time a) (cm_time b)
            \<longleftrightarrow> cm_year a > cm_year b \<or> (cm_year a = cm_year b \<and> cm_month a > cm_month b))
       \<and> (Before (cm_time a) (cm_time b)
            \<longleftrightarrow> cm_year a < cm_year b \<or> (cm_year a = cm_year b \<and> cm_month a < cm_month b))
       \<and> (\<forall>s. cm_parse s = Some a \<longrightarrow> parsePeriod s = Inr (cm_time a, None))
       \<and> (\<forall>s. cm_parse s = Some b \<longrightarrow> parsePeriod s = Inr (cm_time b, None))"
  using After_cm_time[OF assms] Before_cm_time[OF assms]
  by (simp add: cm_after_def cm_precedes_def parsePeriod_cm_parse)

theorem C9_time_order_is_month_order_witness:
  "After (cm_time \<lparr>cm_year = 2025, cm_month = 1\<rparr>) (cm_time \<lparr>cm_year = 2024, cm_month = 12\<rparr>)
   \<and> \<not> Before (cm_time \<lparr>cm_year = 2025, cm_month = 1\<rparr>) (cm_time \<lparr>cm_year = 2024, cm_month = 12\<rparr>)
   \<and> parsePeriod ''01-2025'' = Inr (cm_time \<lparr>cm_year = 2025, cm_month = 1\<rparr>, None)"
  using C9_time_order_is_month_order[of "\<lparr>cm_year = 2025, cm_month = 1\<rparr>"
      "\<lparr>cm_year = 2024, cm_month = 12\<rparr>"]
  by (simp add: valid_cm_def cm_parse_def Atoi_def ParseInt_def ParseUint_def isDigit_def
      maxUint64_def)

section \<open>The total-cost operation\<close>

lemma cm_le_not_after: "cm_le a b \<longleftrightarrow> \<not> cm_after a b"
  by (auto simp: cm_le_def cm_after_def cm_precedes_def)

lemma cm_le_not_precedes: "cm_le a b \<longleftrightarrow> \<not> cm_precedes b a"
  by (auto simp: cm_le_def cm_precedes_def)

lemma parsePeriod_Inl: "parsePeriod s = Inl e \<Longrightarrow> e = PanicIndexOutOfRange"
  by (simp add: parsePeriod_def Let_def split: if_splits prod.splits)

lemma totalCostStep_Inl:
  "totalCostStep st en t sub = Inl e \<Longrightarrow> e = PanicIndexOutOfRange"
  by (auto simp: totalCostStep_def Let_def
      split: sum.splits prod.splits option.splits if_splits dest: parsePeriod_Inl)

lemma totalCostLoop_Inl:
  "totalCostLoop st en t subs = Inl e \<Longrightarrow> e = PanicIndexOutOfRange"
proof (induction subs arbitrary: t)
  case Nil
  then show ?case by simp
next
  case (Cons sub subs)
  show ?case
  proof (cases "totalCostStep st en t sub")
    case (Inl e')
    then show ?thesis using Cons.prems totalCostStep_Inl[of st en t sub e'] by simp
  next
    case (Inr t')
    then show ?thesis using Cons.prems Cons.IH[of t'] by simp
  qed
qed

lemma GetTotalCost_invalid:
  "\<not> isValidDateFormat (StartPeriod req) \<or> \<not> isValidDateFormat (EndPeriod req)
   \<Longrightarrow> GetTotalCost repo_List req = Inl ErrPeriodFormat"
  by (simp add: GetTotalCost_def)

lemma GetTotalCost_parsed:
  assumes s: "cm_parse (StartPeriod req) = Some ws" and e: "cm_parse (EndPeriod req) = Some we"
  shows "GetTotalCost repo_List req =
           (if cm_after ws we then Inl ErrPeriodOrder
            else (case repo_List (request_filters req) of
                    Inl err \<Rightarrow> Inl (ErrRepo err)
                  | Inr subscriptions \<Rightarrow>
                      (case totalCostLoop (cm_time ws) (cm_time we) 0 subscriptions of
                         Inl e \<Rightarrow> Inl e
                       | Inr totalCost \<Rightarrow> Inr \<lparr>TotalCost = totalCost\<rparr>)))"
proof -
  have v: "isValidDateFormat (StartPeriod req)" "isValidDateFormat (EndPeriod req)"
    using s e by (simp_all add: isValidDateFormat_cm_parse)
  have a: "After (cm_time ws) (cm_time we) = cm_after ws we"
    using After_cm_time[OF cm_parse_valid[OF s] cm_parse_valid[OF e]] .
  show ?thesis
    unfolding GetTotalCost_def
    by (simp add: v parsePeriod_cm_parse[OF s] parsePeriod_cm_parse[OF e] a
        request_filters_def Let_def)
qed

lemma cm_parse_01_2025: "cm_parse ''01-2025'' = Some \<lparr>cm_year = 2025, cm_month = 1\<rparr>"
  by (simp add: cm_parse_def Atoi_def ParseInt_def ParseUint_def isDigit_def maxUint64_def)

lemma cm_parse_05_2025: "cm_parse ''05-2025'' = Some \<lparr>cm_year = 2025, cm_month = 5\<rparr>"
  by (simp add: cm_parse_def Atoi_def ParseInt_def ParseUint_def isDigit_def maxUint64_def)

lemma cm_parse_12_2025: "cm_parse ''12-2025'' = Some \<lparr>cm_year = 2025, cm_month = 12\<rparr>"
  by (simp add: cm_parse_def Atoi_def ParseInt_def ParseUint_def isDigit_def maxUint64_def)

lemma cm_parse_07_2025: "cm_parse ''07-2025'' = Some \<lparr>cm_year = 2025, cm_month = 7\<rparr>"
  by (simp add: cm_parse_def Atoi_def ParseInt_def ParseUint_def isDigit_def maxUint64_def)

lemma cm_parse_06_2024: "cm_parse ''06-2024'' = Some \<lparr>cm_year = 2024, cm_month = 6\<rparr>"
  by (simp add: cm_parse_def Atoi_def ParseInt_def ParseUint_def isDigit_def maxUint64_def)

lemma cm_parse_03_2025: "cm_parse ''03-2025'' = Some \<lparr>cm_year = 2025, cm_month = 3\<rparr>"
  by (simp add: cm_parse_def Atoi_def ParseInt_def ParseUint_def isDigit_def maxUint64_def)

lemma invalid_2025: "\<not> isValidDateFormat ''2025''"
  by (simp add: isValidDateFormat_def)

text \<open>
  Claim C5.  The total-cost operation fails with the format error exactly when one of the
  two period strings is not a valid date, and with the range error exactly when both
  parse and the parsed start is strictly after the parsed end; otherwise it goes on to
  list the records and add them up.  A failed validation gives an error and no total; for
  the window from 05-2025 to 01-2025 the result is the range error whatever the
  repository holds.
\<close>

theorem C5_window_validation:
  "(GetTotalCost repo_List req = Inl ErrPeriodFormat
      \<longleftrightarrow> \<not> isValidDateFormat (StartPeriod req) \<or> \<not> isValidDateFormat (EndPeriod req))
   \<and> (GetTotalCost repo_List req = Inl ErrPeriodOrder
      \<longleftrightarrow> (\<exists>ws we. cm_parse (StartPeriod req) = Some ws \<and> cm_parse (EndPeriod req) = Some we
                  \<and> cm_after ws we))
   \<and> (\<forall>ws we. cm_parse (StartPeriod req) = Some ws \<and> cm_parse (EndPeriod req) = Some we
                  \<and> \<not> cm_after ws we
        \<longrightarrow> GetTotalCost repo_List req =
              (case repo_List (request_filters req) of
                 Inl err \<Rightarrow> Inl (ErrRepo err)
               | Inr subscriptions \<Rightarrow>
                   (case totalCostLoop (cm_time ws) (cm_time we) 0 subscriptions of
                      Inl e \<Rightarrow> Inl e
                    | Inr totalCost \<Rightarrow> Inr \<lparr>TotalCost = totalCost\<rparr>)))
   \<and> GetTotalCost repo_List (req\<lparr>StartPeriod := ''05-2025'', EndPeriod := ''01-2025''\<rparr>)
       = Inl ErrPeriodOrder"
proof -
  define agg where "agg ws we =
     (case repo_List (request_filters req) of
        Inl err \<Rightarrow> Inl (ErrRepo err)
      | Inr subscriptions \<Rightarrow>
          (case totalCostLoop (cm_time ws) (cm_time we) 0 subscriptions of
             Inl e \<Rightarrow> Inl e
           | Inr totalCost \<Rightarrow> Inr \<lparr>TotalCost = totalCost\<rparr>))" for ws we
  have agg_ne: "agg ws we \<noteq> Inl ErrPeriodFormat \<and> agg ws we \<noteq> Inl ErrPeriodOrder" for ws we
  proof (cases "repo_List (request_filters req)")
    case (Inl err)
    then show ?thesis by (simp add: agg_def)
  next
    case (Inr subs)
    show ?thesis
    proof (cases "totalCostLoop (cm_time ws) (cm_time we) 0 subs")
      case (Inl e)
      then have "e = PanicIndexOutOfRange" by (rule totalCostLoop_Inl)
      then show ?thesis using Inl Inr by (simp add: agg_def)
    next
      case (Inr t)
      then show ?thesis using \<open>repo_List (request_filters req) = Inr subs\<close>
        by (simp add: agg_def)
    qed
  qed
  have parsed: "GetTotalCost repo_List req = (if cm_after ws we then Inl ErrPeriodOrder else agg ws we)"
    if "cm_parse (StartPeriod req) = Some ws" "cm_parse (EndPeriod req) = Some we" for ws we
    unfolding agg_def using GetTotalCost_parsed[OF that] .
  have c3: "\<forall>ws we. cm_parse (StartPeriod req) = Some ws \<and> cm_parse (EndPeriod req) = Some we
                  \<and> \<not> cm_after ws we
        \<longrightarrow> GetTotalCost repo_List req = agg ws we"
    using parsed by simp
  have c4: "GetTotalCost repo_List (req\<lparr>StartPeriod := ''05-2025'', EndPeriod := ''01-2025''\<rparr>)
       = Inl ErrPeriodOrder"
    using GetTotalCost_parsed[of "req\<lparr>StartPeriod := ''05-2025'', EndPeriod := ''01-2025''\<rparr>"
        "\<lparr>cm_year = 2025, cm_month = 5\<rparr>" "\<lparr>cm_year = 2025, cm_month = 1\<rparr>" repo_List]
    by (simp add: cm_parse_05_2025 cm_parse_01_2025 cm_after_def)
  show ?thesis
  proof (cases "isValidDateFormat (StartPeriod req) \<and> isValidDateFormat (EndPeriod req)")
    case False
    then have r: "GetTotalCost repo_List req = Inl ErrPeriodFormat"
      using GetTotalCost_invalid[of req repo_List] by simp
    have "\<not> (\<exists>ws we. cm_parse (StartPeriod req) = Some ws \<and> cm_parse (EndPeriod req) = Some we
                  \<and> cm_after ws we)"
      using False by (auto simp: isValidDateFormat_cm_parse)
    then show ?thesis using r False c3 c4 unfolding agg_def by simp
  next
    case True
    then obtain ws we where p: "cm_parse (StartPeriod req) = Some ws"
        "cm_parse (EndPeriod req) = Some we"
      by (auto simp: isValidDateFormat_cm_parse)
    have r: "GetTotalCost repo_List req = (if cm_after ws we then Inl ErrPeriodOrder else agg ws we)"
      using parsed[OF p] .
    have c1: "GetTotalCost repo_List req \<noteq> Inl ErrPeriodFormat"
      using r agg_ne[of ws we] by (simp split: if_splits)
    have c2: "GetTotalCost repo_List req = Inl ErrPeriodOrder \<longleftrightarrow> cm_after ws we"
      using r agg_ne[of ws we] by (simp split: if_splits)
    show ?thesis using c1 c2 c3 c4 True p unfolding agg_def by simp
  qed
qed

theorem C5_window_validation_witness:
  "GetTotalCost (repo_returning [])
      \<lparr>req_UserID = None, req_ServiceName = None, StartPeriod = ''01-2025'', EndPeriod = ''12-2025''\<rparr>
     = Inr \<lparr>TotalCost = 0\<rparr>
   \<and> GetTotalCost (repo_returning [])
      \<lparr>req_UserID = None, req_ServiceName = None, StartPeriod = ''2025'', EndPeriod = ''12-2025''\<rparr>
     = Inl ErrPeriodFormat"
  using C5_window_validation[of "repo_returning []"
      "\<lparr>req_UserID = None, req_ServiceName = None, StartPeriod = ''01-2025'', EndPeriod = ''12-2025''\<rparr>"]
    C5_window_validation[of "repo_returning []"
      "\<lparr>req_UserID = None, req_ServiceName = None, StartPeriod = ''2025'', EndPeriod = ''12-2025''\<rparr>"]
  by (simp add: cm_parse_01_2025 cm_parse_12_2025 invalid_2025 cm_after_def repo_returning_def)

lemma totalCostStep_bad_end:
  assumes "isValidDateFormat (StartDate sub)" "EndDate sub = Some e" "CHR ''-'' \<notin> set e"
  shows "totalCostStep st en t sub = Inl PanicIndexOutOfRange"
proof -
  obtain c where "cm_parse (StartDate sub) = Some c"
    using assms(1) by (auto simp: isValidDateFormat_cm_parse)
  then show ?thesis
    by (simp add: totalCostStep_def parsePeriod_cm_parse assms(2)
        parsePeriod_no_separator[OF assms(3)])
qed

lemma Update_empty_end_date:
  assumes "upd_StartDate req = None" "upd_EndDate req = Some []"
  shows "\<exists>stored. Update (repo_finding existing) repo_storing now ident req = Inr stored
           \<and> EndDate stored = Some [] \<and> StartDate stored = StartDate existing"
  using assms
  by (simp add: Update_def Let_def repo_finding_def repo_storing_def split: option.splits)

text \<open>
  Claim C8.  A string accepted by the format check splits into at least two pieces, both
  of which convert to integers, so \<^const>\<open>parsePeriod\<close> reads its second piece in bounds
  and returns a time.  Without the check this fails: a string with no separator, such as
  the empty string, has one piece only and the read of the second is out of range.
  \<^const>\<open>Update\<close> accepts the empty string as an end date and hands it to the repository,
  and the loop of the total-cost operation parses the stored dates with no check, so a
  record with a valid start date and such an end date ends the operation with the panic.
\<close>

theorem C8_parse_needs_validation:
  "(isValidDateFormat s \<longrightarrow>
      (\<exists>month year. length (Split s CHR ''-'') \<ge> 2
         \<and> Atoi (Split s CHR ''-'' ! 0) = (month, None)
         \<and> Atoi (Split s CHR ''-'' ! 1) = (year, None)
         \<and> parsePeriod s = Inr (time_Date year month, None)))
   \<and> (CHR ''-'' \<notin> set s' \<longrightarrow> length (Split s' CHR ''-'') = 1
         \<and> parsePeriod s' = Inl PanicIndexOutOfRange)
   \<and> parsePeriod [] = Inl PanicIndexOutOfRange
   \<and> (upd_StartDate upd = None \<and> upd_EndDate upd = Some []
        \<longrightarrow> (\<exists>stored. Update (repo_finding existing) repo_storing now ident upd = Inr stored
               \<and> EndDate stored = Some [] \<and> StartDate stored = StartDate existing))
   \<and> ((\<exists>ws we. cm_parse (StartPeriod req) = Some ws \<and> cm_parse (EndPeriod req) = Some we
               \<and> \<not> cm_after ws we)
        \<and> isValidDateFormat (StartDate sub) \<and> EndDate sub = Some []
        \<longrightarrow> GetTotalCost (repo_returning (sub # subs)) req = Inl PanicIndexOutOfRange)"
proof -
  have c1: "\<exists>month year. length (Split s CHR ''-'') \<ge> 2
         \<and> Atoi (Split s CHR ''-'' ! 0) = (month, None)
         \<and> Atoi (Split s CHR ''-'' ! 1) = (year, None)
         \<and> parsePeriod s = Inr (time_Date year month, None)" if v: "isValidDateFormat s"
  proof -
    obtain c where c: "cm_parse s = Some c"
      using v by (auto simp: isValidDateFormat_cm_parse)
    from cm_parse_SomeD[OF c] obtain a b where ab: "Split s CHR ''-'' = [a, b]"
      and A: "Atoi a = (cm_month c, None)" and B: "Atoi b = (cm_year c, None)"
      by (elim exE conjE)
    have pp: "parsePeriod s = Inr (time_Date (cm_year c) (cm_month c), None)"
      using parsePeriod_cm_parse[OF c] by (simp add: cm_time_def)
    have "length (Split s CHR ''-'') \<ge> 2
         \<and> Atoi (Split s CHR ''-'' ! 0) = (cm_month c, None)
         \<and> Atoi (Split s CHR ''-'' ! 1) = (cm_year c, None)
         \<and> parsePeriod s = Inr (time_Date (cm_year c) (cm_month c), None)"
      using pp ab A B by simp
    then show ?thesis by (rule_tac x = "cm_month c" in exI, rule_tac x = "cm_year c" in exI)
  qed
  have c2: "length (Split s' CHR ''-'') = 1 \<and> parsePeriod s' = Inl PanicIndexOutOfRange"
    if "CHR ''-'' \<notin> set s'"
  proof -
    have "Split s' CHR ''-'' = [s']" using that by (simp add: Split_one_iff)
    then show ?thesis using parsePeriod_no_separator[OF that] by simp
  qed
  have c3: "parsePeriod [] = Inl PanicIndexOutOfRange"
    by (simp add: parsePeriod_def)
  have c4: "\<exists>stored. Update (repo_finding existing) repo_storing now ident upd = Inr stored
               \<and> EndDate stored = Some [] \<and> StartDate stored = StartDate existing"
    if "upd_StartDate upd = None" "upd_EndDate upd = Some []"
    using Update_empty_end_date[OF that] .
  have c5: "GetTotalCost (repo_returning (sub # subs)) req = Inl PanicIndexOutOfRange"
    if p: "cm_parse (StartPeriod req) = Some ws" "cm_parse (EndPeriod req) = Some we"
      and w: "\<not> cm_after ws we"
      and s: "isValidDateFormat (StartDate sub)" "EndDate sub = Some []" for ws we
    unfolding GetTotalCost_parsed[OF p]
    using w totalCostStep_bad_end[OF s, of "cm_time ws" "cm_time we" 0]
    by (simp add: repo_returning_def)
  show ?thesis using c1 c2 c3 c4 c5 by blast
qed

theorem C8_parse_needs_validation_witness:
  "parsePeriod ''01-2025'' = Inr (time_Date 2025 1, None)
   \<and> parsePeriod ''2025'' = Inl PanicIndexOutOfRange
   \<and> (\<exists>stored.
         Update
           (repo_finding \<lparr>ID = 7, ServiceName = ''Yandex Plus'', Price = 400, UserID = 1,
              StartDate = ''07-2025'', EndDate = None, CreatedAt = Time 0, UpdatedAt = Time 0\<rparr>)
           repo_storing (Time 86400) 7
           \<lparr>upd_ServiceName = None, upd_Price = None, upd_UserID = None,
              upd_StartDate = None, upd_EndDate = Some []\<rparr>
         = Inr stored \<and> EndDate stored = Some [] \<and> StartDate stored = ''07-2025'')
   \<and> GetTotalCost
         (repo_returning [\<lparr>ID = 7, ServiceName = ''Yandex Plus'', Price = 400, UserID = 1,
              StartDate = ''07-2025'', EndDate = Some [], CreatedAt = Time 0,
              UpdatedAt = Time 86400\<rparr>])
         \<lparr>req_UserID = None, req_ServiceName = None, StartPeriod = ''01-2025'',
            EndPeriod = ''12-2025''\<rparr>
       = Inl PanicIndexOutOfRange"
  using C8_parse_needs_validation[of "''01-2025''" "''2025''"
      "\<lparr>upd_ServiceName = None, upd_Price = None, upd_UserID = None,
              upd_StartDate = None, upd_EndDate = Some []\<rparr>"
      "\<lparr>ID = 7, ServiceName = ''Yandex Plus'', Price = 400, UserID = 1,
              StartDate = ''07-2025'', EndDate = None, CreatedAt = Time 0, UpdatedAt = Time 0\<rparr>"
      "Time 86400" 7
      "\<lparr>req_UserID = None, req_ServiceName = None, StartPeriod = ''01-2025'',
            EndPeriod = ''12-2025''\<rparr>"
      "\<lparr>ID = 7, ServiceName = ''Yandex Plus'', Price = 400, UserID = 1,
              StartDate = ''07-2025'', EndDate = Some [], CreatedAt = Time 0,
              UpdatedAt = Time 86400\<rparr>" "[]"]
  by (simp add: isValidDateFormat_cm_parse cm_parse_01_2025 cm_parse_12_2025 cm_parse_07_2025
      cm_after_def Atoi_def ParseInt_def ParseUint_def isDigit_def maxUint64_def)

section \<open>Claims about the aggregation\<close>

lemma sint_word_of_int64:
  "- (2 ^ 63) \<le> x \<Longrightarrow> x < 2 ^ 63 \<Longrightarrow> sint (word_of_int x :: 64 word) = x"
  by (simp add: sint_sbintrunc' signed_take_bit_int_eq_self)

lemma totalCostStep_interval:
  assumes ws: "valid_cm ws" and we: "valid_cm we" and iv: "interval_of sub = Some iv"
  shows "totalCostStep (cm_time ws) (cm_time we) t sub
         = Inr (t + word_of_int (contribution ws we iv))"
proof -
  obtain ss where ss: "cm_parse (StartDate sub) = Some ss"
    using iv by (cases "cm_parse (StartDate sub)") (simp_all add: interval_of_def)
  have vs: "valid_cm ss" using cm_parse_valid[OF ss] .
  show ?thesis
  proof (cases "EndDate sub")
    case None
    then have iv': "iv = \<lparr>si_price = sint (Price sub), si_start = ss, si_end = None\<rparr>"
      using iv ss by (simp add: interval_of_def)
    show ?thesis
      unfolding totalCostStep_def
      by (simp add: parsePeriod_cm_parse[OF ss] None iv' contribution_def
          Before_cm_time[OF vs ws] After_cm_time[OF vs we] cm_le_not_precedes[of ws ss]
          cm_le_not_after[of ss we])
  next
    case (Some endDate)
    obtain se where se: "cm_parse endDate = Some se"
      using iv ss Some by (cases "cm_parse endDate") (simp_all add: interval_of_def)
    have iv': "iv = \<lparr>si_price = sint (Price sub), si_start = ss, si_end = Some se\<rparr>"
      using iv ss Some se by (simp add: interval_of_def)
    have ve: "valid_cm se" using cm_parse_valid[OF se] .
    show ?thesis
      unfolding totalCostStep_def
      by (simp add: parsePeriod_cm_parse[OF ss] parsePeriod_cm_parse[OF se] Some iv'
          contribution_def calculateOverlapMonths_cm[OF ws we vs ve])
  qed
qed

lemma totalCostLoop_intervals:
  assumes ws: "valid_cm ws" and we: "valid_cm we"
  shows "map interval_of subs = map Some ivs
         \<Longrightarrow> totalCostLoop (cm_time ws) (cm_time we) t subs
             = Inr (t + word_of_int (cm_totalCost ws we ivs))"
proof (induction subs arbitrary: t ivs)
  case Nil
  then show ?case by (simp add: cm_totalCost_def)
next
  case (Cons sub subs)
  then obtain iv ivs' where ivs: "ivs = iv # ivs'" "interval_of sub = Some iv"
      "map interval_of subs = map Some ivs'"
    by (cases ivs) auto
  show ?case
    using Cons.IH[OF ivs(3)] totalCostStep_interval[OF ws we ivs(2)]
    by (simp add: ivs(1) cm_totalCost_def add.assoc)
qed

lemma contribution_nonneg:
  assumes "valid_cm ws" "valid_cm we" "valid_cm (si_start iv)"
    and "\<And>e. si_end iv = Some e \<Longrightarrow> valid_cm e" and "0 \<le> si_price iv"
  shows "0 \<le> contribution ws we iv"
proof (cases "si_end iv")
  case None
  then show ?thesis using assms(5) by (simp add: contribution_def)
next
  case (Some e)
  have "0 \<le> cm_overlapMonths ws we (si_start iv) e"
    unfolding cm_overlapMonths_index[OF assms(1,2,3) assms(4)[OF Some]] by simp
  then show ?thesis using assms(5) Some by (simp add: contribution_def)
qed

lemma interval_of_valid:
  assumes "interval_of sub = Some iv"
  shows "valid_cm (si_start iv) \<and> (\<forall>e. si_end iv = Some e \<longrightarrow> valid_cm e)
         \<and> si_price iv = sint (Price sub)"
proof -
  obtain ss where ss: "cm_parse (StartDate sub) = Some ss"
    using assms by (cases "cm_parse (StartDate sub)") (simp_all add: interval_of_def)
  show ?thesis
  proof (cases "EndDate sub")
    case None
    then show ?thesis using assms ss cm_parse_valid[OF ss] by (auto simp: interval_of_def)
  next
    case (Some endDate)
    obtain se where se: "cm_parse endDate = Some se"
      using assms ss Some by (cases "cm_parse endDate") (simp_all add: interval_of_def)
    show ?thesis using assms ss Some se cm_parse_valid[OF ss] cm_parse_valid[OF se]
      by (auto simp: interval_of_def)
  qed
qed

lemma intervals_nonneg:
  assumes ws: "valid_cm ws" and we: "valid_cm we"
    and m: "map interval_of subs = map Some ivs"
    and p: "\<forall>sub \<in> set subs. 0 \<le> sint (Price sub)"
  shows "0 \<le> cm_totalCost ws we ivs"
proof -
  have "0 \<le> contribution ws we iv" if "iv \<in> set ivs" for iv
  proof -
    have "Some iv \<in> set (map interval_of subs)" using that m by simp
    then obtain sub where sub: "sub \<in> set subs" "interval_of sub = Some iv" by auto
    have v: "valid_cm (si_start iv)" "\<And>e. si_end iv = Some e \<Longrightarrow> valid_cm e"
        "si_price iv = sint (Price sub)"
      using interval_of_valid[OF sub(2)] by simp_all
    show ?thesis
      using contribution_nonneg[OF ws we v(1) v(2)] p sub(1) v(3) by simp
  qed
  then show ?thesis unfolding cm_totalCost_def by (intro sum_list_nonneg) auto
qed

text \<open>
  Claim C2.  For a valid window and an open-ended record (no end date) the loop adds the
  price once when the record's start lies in the window, both ends included, and adds
  nothing otherwise; a repository holding only this record gives the price or 0 as the
  total.  With the window 01-2025 to 12-2025, price 400 and start 07-2025 the total is
  400.
\<close>

theorem C2_open_ended_single_charge:
  assumes "cm_parse (StartPeriod req) = Some ws" "cm_parse (EndPeriod req) = Some we"
    and "cm_le ws we"
    and "cm_parse (StartDate sub) = Some subStart" "EndDate sub = None"
  shows "totalCostStep (cm_time ws) (cm_time we) totalCost sub
           = Inr (if cm_le ws subStart \<and> cm_le subStart we then totalCost + Price sub
                  else totalCost)
       \<and> GetTotalCost (repo_returning [sub]) req
           = Inr \<lparr>TotalCost = (if cm_le ws subStart \<and> cm_le subStart we then Price sub else 0)\<rparr>"
proof -
  have ws: "valid_cm ws" and we: "valid_cm we"
    using assms(1,2) by (simp_all add: cm_parse_valid)
  have iv: "interval_of sub
            = Some \<lparr>si_price = sint (Price sub), si_start = subStart, si_end = None\<rparr>"
    using assms(4,5) by (simp add: interval_of_def)
  have step: "totalCostStep (cm_time ws) (cm_time we) t sub
           = Inr (if cm_le ws subStart \<and> cm_le subStart we then t + Price sub else t)" for t
    unfolding totalCostStep_interval[OF ws we iv] by (simp add: contribution_def)
  have "GetTotalCost (repo_returning [sub]) req
           = Inr \<lparr>TotalCost = (if cm_le ws subStart \<and> cm_le subStart we then Price sub else 0)\<rparr>"
    unfolding GetTotalCost_parsed[OF assms(1,2)] using assms(3)
    by (simp add: cm_le_not_after repo_returning_def step)
  then show ?thesis using step by simp
qed

theorem C2_open_ended_single_charge_witness:
  "GetTotalCost
     (repo_returning [\<lparr>ID = 7, ServiceName = ''Yandex Plus'', Price = 400, UserID = 1,
          StartDate = ''07-2025'', EndDate = None, CreatedAt = Time 0, UpdatedAt = Time 0\<rparr>])
     \<lparr>req_UserID = None, req_ServiceName = None, StartPeriod = ''01-2025'',
        EndPeriod = ''12-2025''\<rparr>
   = Inr \<lparr>TotalCost = 400\<rparr>
   \<and> GetTotalCost
     (repo_returning [\<lparr>ID = 7, ServiceName = ''Yandex Plus'', Price = 400, UserID = 1,
          StartDate = ''06-2024'', EndDate = None, CreatedAt = Time 0, UpdatedAt = Time 0\<rparr>])
     \<lparr>req_UserID = None, req_ServiceName = None, StartPeriod = ''01-2025'',
        EndPeriod = ''12-2025''\<rparr>
   = Inr \<lparr>TotalCost = 0\<rparr>"
  using C2_open_ended_single_charge[of
      "\<lparr>req_UserID = None, req_ServiceName = None, StartPeriod = ''01-2025'',
        EndPeriod = ''12-2025''\<rparr>"
      "\<lparr>cm_year = 2025, cm_month = 1\<rparr>" "\<lparr>cm_year = 2025, cm_month = 12\<rparr>"
      "\<lparr>ID = 7, ServiceName = ''Yandex Plus'', Price = 400, UserID = 1,
          StartDate = ''07-2025'', EndDate = None, CreatedAt = Time 0, UpdatedAt = Time 0\<rparr>"
      "\<lparr>cm_year = 2025, cm_month = 7\<rparr>"]
    C2_open_ended_single_charge[of
      "\<lparr>req_UserID = None, req_ServiceName = None, StartPeriod = ''01-2025'',
        EndPeriod = ''12-2025''\<rparr>"
      "\<lparr>cm_year = 2025, cm_month = 1\<rparr>" "\<lparr>cm_year = 2025, cm_month = 12\<rparr>"
      "\<lparr>ID = 7, ServiceName = ''Yandex Plus'', Price = 400, UserID = 1,
          StartDate = ''06-2024'', EndDate = None, CreatedAt = Time 0, UpdatedAt = Time 0\<rparr>"
      "\<lparr>cm_year = 2024, cm_month = 6\<rparr>"]
  by (simp add: cm_parse_01_2025 cm_parse_12_2025 cm_parse_07_2025 cm_parse_06_2024
      cm_le_def cm_precedes_def)

text \<open>
  Claim C3, as the code has it.  For a valid window and records with non-negative prices
  and valid date strings, the computed total is the sum of the records' contributions
  reduced to the 64 bits of a Go \<^verbatim>\<open>int\<close>.  The sum is not negative, and when it is below
  \<open>2^63\<close> the total, read as a signed integer, is the sum itself.  With the window
  01-2025 to 12-2025 and a closed record of price 100 from 06-2024 to 03-2025 the total
  is 300.
\<close>

theorem C3_total_is_sum_in_range:
  assumes "cm_parse (StartPeriod req) = Some ws" "cm_parse (EndPeriod req) = Some we"
    and "cm_le ws we"
    and "map interval_of subs = map Some ivs"
    and "\<forall>sub \<in> set subs. 0 \<le> sint (Price sub)"
  shows "GetTotalCost (repo_returning subs) req
           = Inr \<lparr>TotalCost = word_of_int (cm_totalCost ws we ivs)\<rparr>
       \<and> 0 \<le> cm_totalCost ws we ivs
       \<and> (cm_totalCost ws we ivs < 2 ^ 63
            \<longrightarrow> sint (word_of_int (cm_totalCost ws we ivs) :: go_int) = cm_totalCost ws we ivs)"
proof -
  have ws: "valid_cm ws" and we: "valid_cm we"
    using assms(1,2) by (simp_all add: cm_parse_valid)
  have nn: "0 \<le> cm_totalCost ws we ivs"
    using intervals_nonneg[OF ws we assms(4,5)] .
  have "GetTotalCost (repo_returning subs) req
           = Inr \<lparr>TotalCost = word_of_int (cm_totalCost ws we ivs)\<rparr>"
    unfolding GetTotalCost_parsed[OF assms(1,2)] using assms(3)
    by (simp add: cm_le_not_after repo_returning_def totalCostLoop_intervals[OF ws we assms(4)])
  moreover have "sint (word_of_int (cm_totalCost ws we ivs) :: go_int) = cm_totalCost ws we ivs"
    if "cm_totalCost ws we ivs < 2 ^ 63"
    using sint_word_of_int64[of "cm_totalCost ws we ivs"] nn that by simp
  ultimately show ?thesis using nn by simp
qed

theorem C3_total_is_sum_in_range_witness:
  "GetTotalCost
     (repo_returning [\<lparr>ID = 7, ServiceName = ''Netflix'', Price = 100, UserID = 1,
          StartDate = ''06-2024'', EndDate = Some ''03-2025'', CreatedAt = Time 0,
          UpdatedAt = Time 0\<rparr>])
     \<lparr>req_UserID = None, req_ServiceName = None, StartPeriod = ''01-2025'',
        EndPeriod = ''12-2025''\<rparr>
   = Inr \<lparr>TotalCost = 300\<rparr>"
  using C3_total_is_sum_in_range[of
      "\<lparr>req_UserID = None, req_ServiceName = None, StartPeriod = ''01-2025'',
        EndPeriod = ''12-2025''\<rparr>"
      "\<lparr>cm_year = 2025, cm_month = 1\<rparr>" "\<lparr>cm_year = 2025, cm_month = 12\<rparr>"
      "[\<lparr>ID = 7, ServiceName = ''Netflix'', Price = 100, UserID = 1,
          StartDate = ''06-2024'', EndDate = Some ''03-2025'', CreatedAt = Time 0,
          UpdatedAt = Time 0\<rparr>]"
      "[\<lparr>si_price = 100, si_start = \<lparr>cm_year = 2024, cm_month = 6\<rparr>,
          si_end = Some \<lparr>cm_year = 2025, cm_month = 3\<rparr>\<rparr>]"]
  by (simp add: cm_parse_01_2025 cm_parse_12_2025 cm_parse_06_2024 cm_parse_03_2025
      interval_of_def cm_le_def cm_precedes_def cm_after_def cm_totalCost_def contribution_def
      cm_overlapMonths_def cm_max_def cm_min_def cm_span_def)

text \<open>
  The claim as the specification words it, that the total is the sum and is never
  negative for all non-negative prices, fails where the sum leaves the 64-bit range: one
  closed record of price \<open>2^62\<close> overlapping the window in 3 months has the contribution
  \<open>3 * 2^62\<close>, and the total computed is \<open>- 2^62\<close>.
\<close>

theorem C3_total_counterexample:
  "sint (Price \<lparr>ID = 7, ServiceName = ''Netflix'', Price = 4611686018427387904, UserID = 1,
          StartDate = ''06-2024'', EndDate = Some ''03-2025'', CreatedAt = Time 0,
          UpdatedAt = Time 0\<rparr>) = 4611686018427387904
   \<and> isValidDateFormat ''06-2024'' \<and> isValidDateFormat ''03-2025''
   \<and> isValidDateFormat ''01-2025'' \<and> isValidDateFormat ''12-2025''
   \<and> cm_totalCost \<lparr>cm_year = 2025, cm_month = 1\<rparr> \<lparr>cm_year = 2025, cm_month = 12\<rparr>
        [\<lparr>si_price = 4611686018427387904, si_start = \<lparr>cm_year = 2024, cm_month = 6\<rparr>,
          si_end = Some \<lparr>cm_year = 2025, cm_month = 3\<rparr>\<rparr>] = 13835058055282163712
   \<and> GetTotalCost
       (repo_returning [\<lparr>ID = 7, ServiceName = ''Netflix'', Price = 4611686018427387904,
          UserID = 1, StartDate = ''06-2024'', EndDate = Some ''03-2025'', CreatedAt = Time 0,
          UpdatedAt = Time 0\<rparr>])
       \<lparr>req_UserID = None, req_ServiceName = None, StartPeriod = ''01-2025'',
          EndPeriod = ''12-2025''\<rparr>
     = Inr \<lparr>TotalCost = 13835058055282163712\<rparr>
   \<and> sint (13835058055282163712 :: go_int) = - 4611686018427387904"
proof -
  let ?sub = "\<lparr>ID = 7, ServiceName = ''Netflix'', Price = 4611686018427387904, UserID = 1,
          StartDate = ''06-2024'', EndDate = Some ''03-2025'', CreatedAt = Time 0,
          UpdatedAt = Time 0\<rparr>"
  let ?iv = "\<lparr>si_price = 4611686018427387904, si_start = \<lparr>cm_year = 2024, cm_month = 6\<rparr>,
          si_end = Some \<lparr>cm_year = 2025, cm_month = 3\<rparr>\<rparr>"
  let ?req = "\<lparr>req_UserID = None, req_ServiceName = None, StartPeriod = ''01-2025'',
          EndPeriod = ''12-2025''\<rparr>"
  let ?ws = "\<lparr>cm_year = 2025, cm_month = 1\<rparr>"
  let ?we = "\<lparr>cm_year = 2025, cm_month = 12\<rparr>"
  have p: "sint (Price ?sub) = 4611686018427387904" by simp
  have v: "isValidDateFormat ''06-2024''" "isValidDateFormat ''03-2025''"
      "isValidDateFormat ''01-2025''" "isValidDateFormat ''12-2025''"
    by (simp_all add: isValidDateFormat_cm_parse cm_parse_06_2024 cm_parse_03_2025
        cm_parse_01_2025 cm_parse_12_2025)
  have iv: "map interval_of [?sub] = map Some [?iv]"
    by (simp add: interval_of_def cm_parse_06_2024 cm_parse_03_2025)
  have tot: "cm_totalCost ?ws ?we [?iv] = 13835058055282163712"
    by (simp add: cm_totalCost_def contribution_def cm_overlapMonths_def cm_max_def cm_min_def
        cm_after_def cm_precedes_def cm_span_def)
  have w: "valid_cm ?ws" "valid_cm ?we" by (simp_all add: valid_cm_def)
  have loop: "totalCostLoop (cm_time ?ws) (cm_time ?we) 0 [?sub]
              = Inr (word_of_int 13835058055282163712)"
    using totalCostLoop_intervals[OF w iv, of 0] unfolding tot by simp
  have g: "GetTotalCost (repo_returning [?sub]) ?req = Inr \<lparr>TotalCost = 13835058055282163712\<rparr>"
    using GetTotalCost_parsed[of ?req ?ws ?we "repo_returning [?sub]"] loop
    by (simp add: cm_parse_01_2025 cm_parse_12_2025 cm_after_def repo_returning_def)
  have s: "sint (13835058055282163712 :: go_int) = - 4611686018427387904" by simp
  show ?thesis using p v tot g s by simp
qed

end
